theory Spec2Isabelle
  imports Main "HOL-Library.Char_ord" "HOL-Library.List_Lexorder" "HOL-Library.AList"
begin

section \<open>Common data: instants, styles, styled strings\<close>

text \<open>
  A Go \<^verbatim>\<open>time.Time\<close> is modelled by the number of nanoseconds that separate the
  instant from the zero time (January 1, year 1, 00:00:00 UTC).  \<^verbatim>\<open>IsZero\<close> is
  equality with 0, \<^verbatim>\<open>Before\<close>, \<^verbatim>\<open>After\<close> and \<^verbatim>\<open>Equal\<close> are \<open><\<close>, \<open>>\<close> and \<open>=\<close>;
  \<^verbatim>\<open>Truncate(time.Second)\<close> rounds down to a multiple of one second counted from
  the zero time.  \<^verbatim>\<open>UTC()\<close> changes the location only, never the instant.
\<close>

type_synonym instant = int

definition second :: int where
  "second = 1000000000"

definition IsZeroTime :: "instant \<Rightarrow> bool" where
  "IsZeroTime t = (t = 0)"

definition Truncate :: "instant \<Rightarrow> int \<Rightarrow> instant" where
  "Truncate t d = (if d \<le> 0 then t else t - t mod d)"

datatype color = ColorDefault | ColorWhite | ColorRed | ColorGreen | ColorGray | ColorIndexed nat

datatype style = StyleDefault | Foreground color

text \<open>
  Modelled from the spec: the type \<^verbatim>\<open>StyledString\<close> and its builder are declared in a file
  of package \<^verbatim>\<open>ui\<close> that is not part of the sources at hand.  Following section 4.5 of
  the specification, a styled string is a plain body plus a list of
  (start index, style) spans.
\<close>

record StyledString =
  string :: String.string
  styles :: "(nat \<times> style) list"

text \<open>Modelled from the spec: \<^verbatim>\<open>Styled(s, st)\<close> is the body \<open>s\<close> with one span at index 0.\<close>

definition Styled :: "String.string \<Rightarrow> style \<Rightarrow> StyledString" where
  "Styled s st = \<lparr>string = s, styles = [(0, st)]\<rparr>"

text \<open>\<^verbatim>\<open>StyledString.String()\<close> returns the plain body.\<close>

definition String_of :: "StyledString \<Rightarrow> String.string" where
  "String_of s = string s"

section \<open>Events and timeline lines\<close>

text \<open>
  Modelled from the spec: the declarations of the \<^verbatim>\<open>irc\<close> events that the application
  formats and merges are not part of the sources at hand.  The constructors carry the
  fields listed in section 3 of the specification, which are the ones the application
  reads (\<^verbatim>\<open>ev.User\<close>, \<^verbatim>\<open>ev.FormerNick\<close>, \<^verbatim>\<open>ev.Channel\<close>, \<^verbatim>\<open>ev.Channels\<close>, \<^verbatim>\<open>ev.Mode\<close>,
  \<^verbatim>\<open>ev.Topic\<close>, \<^verbatim>\<open>ev.Time\<close>).  \<open>OtherEvent\<close> stands for every other event type.
\<close>

datatype event =
    UserNickEvent String.string String.string instant
      \<comment> \<open>\<^verbatim>\<open>FormerNick\<close>, \<^verbatim>\<open>User\<close>, \<^verbatim>\<open>Time\<close>\<close>
  | UserJoinEvent String.string String.string instant
      \<comment> \<open>\<^verbatim>\<open>Channel\<close>, \<^verbatim>\<open>User\<close>, \<^verbatim>\<open>Time\<close>\<close>
  | UserPartEvent String.string String.string instant
      \<comment> \<open>\<^verbatim>\<open>Channel\<close>, \<^verbatim>\<open>User\<close>, \<^verbatim>\<open>Time\<close>\<close>
  | UserQuitEvent "String.string list" String.string instant
      \<comment> \<open>\<^verbatim>\<open>Channels\<close>, \<^verbatim>\<open>User\<close>, \<^verbatim>\<open>Time\<close>\<close>
  | TopicChangeEvent String.string String.string instant
      \<comment> \<open>\<^verbatim>\<open>Channel\<close>, \<^verbatim>\<open>Topic\<close>, \<^verbatim>\<open>Time\<close>\<close>
  | ModeChangeEvent String.string String.string instant
      \<comment> \<open>\<^verbatim>\<open>Channel\<close>, \<^verbatim>\<open>Mode\<close>, \<^verbatim>\<open>Time\<close>\<close>
  | OtherEvent

record point =
  X :: int
  I :: int
  Split :: bool

text \<open>
  \<^verbatim>\<open>ui.Line\<close>.  The field \<^verbatim>\<open>Data interface{}\<close> holds either nothing or the list of events
  that produced the line, hence an option.
\<close>

record Line =
  At :: instant
  Head :: String.string
  Body :: StyledString
  HeadColor :: color
  Highlight :: bool
  Readable :: bool
  Mergeable :: bool
  Data :: "event list option"
  splitPoints :: "point list"
  width :: int
  newLines :: "int list"

text \<open>The Go literal \<^verbatim>\<open>ui.Line{At: t, Body: b}\<close>: every other field has its zero value.\<close>

definition LineLit :: "instant \<Rightarrow> StyledString \<Rightarrow> Line" where
  "LineLit t b =
     \<lparr>At = t, Head = [], Body = b, HeadColor = ColorDefault, Highlight = False,
      Readable = False, Mergeable = False, Data = None, splitPoints = [], width = 0,
      newLines = []\<rparr>"

definition IsZero :: "Line \<Rightarrow> bool" where
  "IsZero l = (string (Body l) = [])"

section \<open>History bounds (\<^verbatim>\<open>bound\<close>)\<close>

text \<open>The field \<^verbatim>\<open>last\<close> is named \<open>last_b\<close> here, \<open>last\<close> being the list function.\<close>

record bound =
  first :: instant
  last_b :: instant
  firstMessage :: String.string
  lastMessage :: String.string

text \<open>The zero value \<^verbatim>\<open>bound{}\<close>, which a lookup in \<^verbatim>\<open>messageBounds\<close> yields for a new key.\<close>

definition bound_zero :: bound where
  "bound_zero = \<lparr>first = 0, last_b = 0, firstMessage = [], lastMessage = []\<rparr>"

text \<open>\<^verbatim>\<open>Compare\<close> returns 0 if the line is within bounds, -1 if before, 1 if after.\<close>

definition Compare :: "bound \<Rightarrow> Line \<Rightarrow> int" where
  "Compare b line =
     (let at = Truncate (At line) second in
      if at < first b then - 1
      else if at > last_b b then 1
      else if at = first b \<and> String_of (Body line) \<noteq> firstMessage b then - 1
      else if at = last_b b \<and> String_of (Body line) \<noteq> lastMessage b then - 1
      else 0)"

definition Update :: "bound \<Rightarrow> Line \<Rightarrow> bound" where
  "Update b line =
     (if IsZeroTime (At line) then b
      else
        let at = Truncate (At line) second in
        if IsZeroTime (first b) \<or> at < first b then
          b\<lparr>first := at, firstMessage := String_of (Body line)\<rparr>
        else if IsZeroTime (last_b b) \<or> at > last_b b then
          b\<lparr>last_b := at, lastMessage := String_of (Body line)\<rparr>
        else b)"

definition bound_IsZero :: "bound \<Rightarrow> bool" where
  "bound_IsZero b = IsZeroTime (first b)"

text \<open>A bound and lines used as concrete inputs below.\<close>

definition bound_ex :: bound where
  "bound_ex = \<lparr>first = 100 * second, last_b = 200 * second,
               firstMessage = ''a'', lastMessage = ''e''\<rparr>"

definition line_ex :: "int \<Rightarrow> String.string \<Rightarrow> Line" where
  "line_ex secs body = LineLit (secs * second) (Styled body StyleDefault)"


section \<open>The IRC session (\<^verbatim>\<open>irc/states.go\<close>)\<close>

text \<open>
  Functions of the Go library and of source files that are not at hand are parameters
  of the model:
  \<^item> \<open>toLower\<close> is \<^verbatim>\<open>strings.ToLower\<close>;
  \<^item> \<open>FullMask\<close> splits a prefix into nick, user and host;
  \<^item> \<open>msgTime\<close> is \<^verbatim>\<open>Message.Time()\<close>, the instant of the \<^verbatim>\<open>time\<close> tag when there is one;
  \<^item> \<open>now\<close> is the value that \<^verbatim>\<open>time.Now()\<close> returns in the call.
\<close>

text \<open>
  Modelled from the spec: \<^verbatim>\<open>Message\<close> is declared in a file that is not at hand; it has
  the tag map, the prefix, the command and the parameters of section 3.
\<close>

record Message =
  Tags :: "String.string \<rightharpoonup> String.string"
  Prefix :: String.string
  Command :: String.string
  Params :: "String.string list"

record Channel =
  Name :: String.string
  Members :: "String.string \<rightharpoonup> String.string"
  Topic :: String.string
  TopicWho :: String.string
  TopicTime :: instant
  Secret :: bool

text \<open>
  The events that \<^verbatim>\<open>states.go\<close> sends on \<^verbatim>\<open>s.evts\<close>, with the fields it gives them.
  They are named \<open>\<dots>Evt\<close> to keep them apart from the events of the application above.
\<close>

datatype Event =
    SelfPartEvt String.string
      \<comment> \<open>\<^verbatim>\<open>SelfPartEvent{Channel}\<close>\<close>
  | UserPartEvt "String.string list" String.string instant
      \<comment> \<open>\<^verbatim>\<open>UserPartEvent{Channels, Nick, Time}\<close>\<close>
  | RawMessageEvt String.string bool
      \<comment> \<open>\<^verbatim>\<open>RawMessageEvent{Message, Outgoing}\<close>\<close>

text \<open>
  The fields of \<^verbatim>\<open>Session\<close> that the modelled functions touch.  \<open>conn\<close> is the list of
  the byte strings handed to \<^verbatim>\<open>conn.Write\<close>, in order; \<open>evts\<close> is the list of the
  events sent on the channel \<^verbatim>\<open>s.evts\<close>, in order.  The map \<^verbatim>\<open>s.channels\<close> is an
  association list with distinct keys: its order stands for the order in which Go
  happens to iterate over the map.
\<close>

record Session =
  conn :: "String.string list"
  evts :: "Event list"
  debug :: bool
  typingStamps :: "String.string \<rightharpoonup> instant"
  nickCf :: String.string
  enabledCaps :: "String.string set"
  channels :: "(String.string \<times> Channel) list"

datatype panic = Panic

text \<open>\<^verbatim>\<open>strings.Split(msg, "\r\n")\<close>.\<close>

fun split_crlf :: "String.string \<Rightarrow> String.string list" where
  "split_crlf [] = [[]]"
| "split_crlf [c] = [[c]]"
| "split_crlf (c # d # cs) =
     (if c = CHR 0x0D \<and> d = CHR 0x0A then [] # split_crlf cs
      else (case split_crlf (d # cs) of
              [] \<Rightarrow> [[c]]
            | l # ls \<Rightarrow> (c # l) # ls))"

text \<open>
  \<^verbatim>\<open>send\<close> with the formatted message \<open>msg\<close>: the message is written to the
  connection; in debug mode every non-empty line of it is reported as an outgoing raw
  message.
\<close>

definition send :: "Session \<Rightarrow> String.string \<Rightarrow> Session" where
  "send s msg =
     (let s1 = s\<lparr>conn := conn s @ [msg]\<rparr> in
      if debug s1 then
        s1\<lparr>evts := evts s1 @ map (\<lambda>line. RawMessageEvt line True)
                                 (filter (\<lambda>line. line \<noteq> []) (split_crlf msg))\<rparr>
      else s1)"

text \<open>
  \<^verbatim>\<open>typing\<close>, for the action \<^verbatim>\<open>actionTyping{Channel}\<close>.  \<^verbatim>\<open>now.Sub(t).Seconds() < 3.0\<close>
  compares a whole number of nanoseconds, brought to seconds, with 3; that is
  \<open>now - t < 3 * second\<close>.
\<close>

definition typing ::
  "(String.string \<Rightarrow> String.string) \<Rightarrow> instant \<Rightarrow> Session \<Rightarrow> String.string \<Rightarrow> Session" where
  "typing toLower now s Channel =
     (if ''message-tags'' \<notin> enabledCaps s then s
      else
        let to = toLower Channel in
        if (case typingStamps s to of Some t \<Rightarrow> now - t < 3 * second | None \<Rightarrow> False) then s
        else
          send (s\<lparr>typingStamps := (typingStamps s)(to \<mapsto> now)\<rparr>)
            (''@+typing=active TAGMSG '' @ Channel @ [CHR 0x0D, CHR 0x0A]))"

text \<open>
  The case \<^verbatim>\<open>"PART"\<close> of \<^verbatim>\<open>Session.handle\<close>.  \<^verbatim>\<open>msg.Params[0]\<close> panics when the message
  has no parameter.  \<^verbatim>\<open>c.Members\<close> is a Go map, shared by the copy \<open>c\<close> and the entry
  of \<^verbatim>\<open>s.channels\<close>: the deletion shows in the session.
\<close>

definition handle_PART ::
  "(String.string \<Rightarrow> String.string) \<Rightarrow> (String.string \<Rightarrow> String.string \<times> String.string \<times> String.string) \<Rightarrow>
   (Message \<Rightarrow> instant option) \<Rightarrow> instant \<Rightarrow> Session \<Rightarrow> Message \<Rightarrow> panic + Session" where
  "handle_PART toLower FullMask msgTime now s msg =
     (let nick = fst (FullMask (Prefix msg));
          nickCf' = toLower nick
      in case Params msg of
           [] \<Rightarrow> Inl Panic
         | p0 # _ \<Rightarrow>
             let channelCf = toLower p0 in
             if nickCf' = nickCf s then
               Inr (s\<lparr>channels := AList.delete channelCf (channels s),
                       evts := evts s @ [SelfPartEvt p0]\<rparr>)
             else
               (case map_of (channels s) channelCf of
                  Some c \<Rightarrow>
                    let t = (case msgTime msg of Some t \<Rightarrow> t | None \<Rightarrow> now) in
                    Inr (s\<lparr>channels :=
                             AList.update channelCf
                               (c\<lparr>Members := (Members c)(nickCf' := None)\<rparr>) (channels s),
                           evts := evts s @ [UserPartEvt [Name c] nick t]\<rparr>)
                | None \<Rightarrow> Inr s))"

text \<open>
  The case \<^verbatim>\<open>"QUIT"\<close> of \<^verbatim>\<open>Session.handle\<close>, which a QUIT message reaches unless it
  carries the tag of an open history batch.
\<close>

definition handle_QUIT ::
  "(String.string \<Rightarrow> String.string) \<Rightarrow> (String.string \<Rightarrow> String.string \<times> String.string \<times> String.string) \<Rightarrow>
   (Message \<Rightarrow> instant option) \<Rightarrow> instant \<Rightarrow> Session \<Rightarrow> Message \<Rightarrow> Session" where
  "handle_QUIT toLower FullMask msgTime now s msg =
     (let nick = fst (FullMask (Prefix msg));
          nickCf' = toLower nick;
          t = (case msgTime msg of Some t \<Rightarrow> t | None \<Rightarrow> now);
          chans = map (\<lambda>(k, c). Name c)
                    (filter (\<lambda>(k, c). Members c nickCf' \<noteq> None) (channels s))
      in s\<lparr>evts := evts s @ [UserPartEvt chans nick t]\<rparr>)"

text \<open>Concrete instances of the parameters, for the evaluations below.\<close>

definition lower_char :: "char \<Rightarrow> char" where
  "lower_char c =
     (if CHR ''A'' \<le> c \<and> c \<le> CHR ''Z'' then char_of (of_char c + (32 :: nat)) else c)"

definition ascii_lower :: "String.string \<Rightarrow> String.string" where
  "ascii_lower s = map lower_char s"

definition mask_ex :: "String.string \<Rightarrow> String.string \<times> String.string \<times> String.string" where
  "mask_ex p = (takeWhile (\<lambda>c. c \<noteq> CHR ''!'') p, [], [])"

definition channel_ex :: Channel where
  "channel_ex = \<lparr>Name = ''#a'', Members = [''bob'' \<mapsto> [], ''me'' \<mapsto> []], Topic = [],
                 TopicWho = [], TopicTime = 0, Secret = False\<rparr>"

definition session_ex :: Session where
  "session_ex = \<lparr>conn = [], evts = [], debug = False, typingStamps = Map.empty,
                 nickCf = ''me'', enabledCaps = {''message-tags''},
                 channels = [(''#a'', channel_ex)]\<rparr>"

text \<open>The session \<open>session_ex\<close> after a first \<^verbatim>\<open>typing("#a")\<close>, processed at the instant 0.\<close>

definition session_typed :: Session where
  "session_typed = typing ascii_lower 0 session_ex ''#a''"

definition quit_ex :: Message where
  "quit_ex = \<lparr>Tags = Map.empty, Prefix = ''bob!u@h'', Command = ''QUIT'', Params = []\<rparr>"

definition part_ex :: Message where
  "part_ex = \<lparr>Tags = Map.empty, Prefix = ''bob!u@h'', Command = ''PART'', Params = [''#a'']\<rparr>"

section \<open>Formatting and merging of events (the application)\<close>

text \<open>
  Modelled from the spec: \<^verbatim>\<open>StyledStringBuilder\<close> is declared beside \<^verbatim>\<open>StyledString\<close>, in
  the file that is not at hand.  It accumulates a plain body and the spans of section
  4.5: \<^verbatim>\<open>WriteString\<close> and \<^verbatim>\<open>WriteByte\<close> extend the body, \<^verbatim>\<open>SetStyle\<close> opens a span at
  the current end of the body, \<^verbatim>\<open>AddStyle\<close> records a span at a given index,
  \<^verbatim>\<open>WriteStyledString\<close> appends a styled string with its spans shifted, and
  \<^verbatim>\<open>StyledString()\<close> returns what has been accumulated.  \<^verbatim>\<open>Grow\<close> only reserves memory.
\<close>

type_synonym StyledStringBuilder = StyledString

definition new_builder :: StyledStringBuilder where
  "new_builder = \<lparr>string = [], styles = []\<rparr>"

definition Len :: "StyledStringBuilder \<Rightarrow> nat" where
  "Len sb = length (string sb)"

definition WriteString :: "StyledStringBuilder \<Rightarrow> String.string \<Rightarrow> StyledStringBuilder" where
  "WriteString sb s = sb\<lparr>string := string sb @ s\<rparr>"

definition WriteByte :: "StyledStringBuilder \<Rightarrow> char \<Rightarrow> StyledStringBuilder" where
  "WriteByte sb c = sb\<lparr>string := string sb @ [c]\<rparr>"

definition SetStyle :: "StyledStringBuilder \<Rightarrow> style \<Rightarrow> StyledStringBuilder" where
  "SetStyle sb st = sb\<lparr>styles := styles sb @ [(Len sb, st)]\<rparr>"

definition AddStyle :: "StyledStringBuilder \<Rightarrow> nat \<Rightarrow> style \<Rightarrow> StyledStringBuilder" where
  "AddStyle sb start st = sb\<lparr>styles := styles sb @ [(start, st)]\<rparr>"

definition WriteStyledString :: "StyledStringBuilder \<Rightarrow> StyledString \<Rightarrow> StyledStringBuilder" where
  "WriteStyledString sb s =
     sb\<lparr>string := string sb @ string s,
        styles := styles sb @ map (\<lambda>(i, st). (i + Len sb, st)) (styles s)\<rparr>"

definition StyledString_of :: "StyledStringBuilder \<Rightarrow> StyledString" where
  "StyledString_of sb = sb"

text \<open>\<^verbatim>\<open>strings.Split(s, " ")\<close>.\<close>

fun split_space :: "String.string \<Rightarrow> String.string list" where
  "split_space [] = [[]]"
| "split_space (c # cs) =
     (if c = CHR '' '' then [] # split_space cs
      else (case split_space cs of
              [] \<Rightarrow> [[c]]
            | l # ls \<Rightarrow> (c # l) # ls))"

text \<open>The rightwards arrow U+2192 of the format \<^verbatim>\<open>"%s\u2192%s"\<close>, in UTF-8.\<close>

definition arrow :: String.string where
  "arrow = [CHR 0xE2, CHR 0x86, CHR 0x92]"

text \<open>
  \<^verbatim>\<open>App.formatEvent\<close>.  \<open>IRCString\<close>, a parameter, is \<^verbatim>\<open>ui.IRCString\<close>, which turns the IRC
  formatting codes of a text into spans.
\<close>

definition event_line :: "instant \<Rightarrow> StyledString \<Rightarrow> bool \<Rightarrow> event list option \<Rightarrow> Line" where
  "event_line t body mergeable d =
     \<lparr>At = t, Head = ''--'', Body = body, HeadColor = ColorGray, Highlight = False,
      Readable = True, Mergeable = mergeable, Data = d, splitPoints = [], width = 0,
      newLines = []\<rparr>"

fun formatEvent :: "(String.string \<Rightarrow> StyledString) \<Rightarrow> event \<Rightarrow> Line" where
  "formatEvent IRCString (UserNickEvent former user t) =
     (let body = WriteString new_builder (former @ arrow @ user);
          textStyle = Foreground ColorGray;
          arrowStyle = StyleDefault;
          body = AddStyle body 0 textStyle;
          body = AddStyle body (length former) arrowStyle;
          body = AddStyle body (Len body - length user) textStyle
      in event_line t (StyledString_of body) True (Some [UserNickEvent former user t]))"
| "formatEvent IRCString (UserJoinEvent ch user t) =
     (let body = SetStyle new_builder (Foreground ColorGreen);
          body = WriteByte body (CHR ''+'');
          body = SetStyle body (Foreground ColorGray);
          body = WriteString body user
      in event_line t (StyledString_of body) True (Some [UserJoinEvent ch user t]))"
| "formatEvent IRCString (UserPartEvent ch user t) =
     (let body = SetStyle new_builder (Foreground ColorRed);
          body = WriteByte body (CHR ''-'');
          body = SetStyle body (Foreground ColorGray);
          body = WriteString body user
      in event_line t (StyledString_of body) True (Some [UserPartEvent ch user t]))"
| "formatEvent IRCString (UserQuitEvent chs user t) =
     (let body = SetStyle new_builder (Foreground ColorRed);
          body = WriteByte body (CHR ''-'');
          body = SetStyle body (Foreground ColorGray);
          body = WriteString body user
      in event_line t (StyledString_of body) True (Some [UserQuitEvent chs user t]))"
| "formatEvent IRCString (TopicChangeEvent ch topic t) =
     (let topic' = String_of (IRCString topic);
          body = ''Topic changed to: '' @ topic'
      in event_line t (Styled body (Foreground ColorGray)) False None)"
| "formatEvent IRCString (ModeChangeEvent ch mode t) =
     (let body = ''['' @ mode @ '']'';
          mergeable = (length (split_space mode) = 2)
      in event_line t (Styled body (Foreground ColorGray)) mergeable
           (Some [ModeChangeEvent ch mode t]))"
| "formatEvent IRCString OtherEvent = LineLit 0 \<lparr>string = [], styles = []\<rparr>"

text \<open>
  \<^verbatim>\<open>App.mergeLine\<close>.  The local type \<^verbatim>\<open>flow\<close> is used through pointers: \<^verbatim>\<open>flows\<close> maps a
  folded nick to a \<^verbatim>\<open>*flow\<close>, \<^verbatim>\<open>eventFlows\<close> holds one \<^verbatim>\<open>*flow\<close> (or nil) per event, and
  \<^verbatim>\<open>f.hide = true\<close> is seen through every pointer to the same flow.  The model keeps the
  flows in a store, a list in which the address of a flow is its index; a new flow is
  allocated at the end of the store.
\<close>

record flow =
  hide :: bool
  state :: int

type_synonym flow_state = "flow list \<times> (String.string \<rightharpoonup> nat) \<times> nat option list"

text \<open>
  One turn of the first loop of \<^verbatim>\<open>mergeLine\<close>; the entry of \<^verbatim>\<open>eventFlows\<close> for the
  event is appended, nil where the source leaves it unset.
  \<^verbatim>\<open>strings.Split(ev.Mode, " ")[1]\<close> panics when the mode has no space.
\<close>

fun flow_step ::
  "(String.string \<Rightarrow> String.string) \<Rightarrow> flow_state \<Rightarrow> event \<Rightarrow> panic + flow_state" where
  "flow_step toLower (store, flows, eventFlows) (UserNickEvent former user t) =
     (let userCf = toLower user in
      case flows (toLower former) of
        Some f \<Rightarrow>
          Inr (store, (flows(userCf \<mapsto> f))(toLower former := None), eventFlows @ [Some f])
      | None \<Rightarrow>
          Inr (store @ [\<lparr>hide = False, state = 0\<rparr>], flows(userCf \<mapsto> length store),
               eventFlows @ [Some (length store)]))"
| "flow_step toLower (store, flows, eventFlows) (UserJoinEvent ch user t) =
     (let userCf = toLower user in
      case flows userCf of
        Some f \<Rightarrow>
          if state (store ! f) = - 1 then
            Inr (store[f := (store ! f)\<lparr>hide := True\<rparr>], flows(userCf := None),
                 eventFlows @ [None])
          else Inr (store, flows, eventFlows @ [None])
      | None \<Rightarrow>
          Inr (store @ [\<lparr>hide = False, state = 1\<rparr>], flows(userCf \<mapsto> length store),
               eventFlows @ [Some (length store)]))"
| "flow_step toLower (store, flows, eventFlows) (UserPartEvent ch user t) =
     (let userCf = toLower user in
      case flows userCf of
        Some f \<Rightarrow>
          if state (store ! f) = 1 then
            Inr (store[f := (store ! f)\<lparr>hide := True\<rparr>], flows(userCf := None),
                 eventFlows @ [None])
          else Inr (store, flows, eventFlows @ [None])
      | None \<Rightarrow>
          Inr (store @ [\<lparr>hide = False, state = - 1\<rparr>], flows(userCf \<mapsto> length store),
               eventFlows @ [Some (length store)]))"
| "flow_step toLower (store, flows, eventFlows) (UserQuitEvent chs user t) =
     (let userCf = toLower user in
      case flows userCf of
        Some f \<Rightarrow>
          if state (store ! f) = 1 then
            Inr (store[f := (store ! f)\<lparr>hide := True\<rparr>], flows(userCf := None),
                 eventFlows @ [None])
          else Inr (store, flows, eventFlows @ [None])
      | None \<Rightarrow>
          Inr (store @ [\<lparr>hide = False, state = - 1\<rparr>], flows(userCf \<mapsto> length store),
               eventFlows @ [Some (length store)]))"
| "flow_step toLower (store, flows, eventFlows) (ModeChangeEvent ch mode t) =
     (case split_space mode of
        _ # u # _ \<Rightarrow>
          (let userCf = toLower u in
           case flows userCf of
             Some f \<Rightarrow> Inr (store, flows, eventFlows @ [Some f])
           | None \<Rightarrow>
               Inr (store @ [\<lparr>hide = False, state = 0\<rparr>], flows(userCf \<mapsto> length store),
                    eventFlows @ [Some (length store)]))
      | _ \<Rightarrow> Inl Panic)"
| "flow_step toLower (store, flows, eventFlows) (TopicChangeEvent ch topic t) =
     Inr (store, flows, eventFlows @ [None])"
| "flow_step toLower (store, flows, eventFlows) OtherEvent =
     Inr (store, flows, eventFlows @ [None])"

fun flow_loop ::
  "(String.string \<Rightarrow> String.string) \<Rightarrow> flow_state \<Rightarrow> event list \<Rightarrow> panic + flow_state" where
  "flow_loop toLower fs [] = Inr fs"
| "flow_loop toLower fs (ev # evs) =
     (case flow_step toLower fs ev of
        Inl p \<Rightarrow> Inl p
      | Inr fs' \<Rightarrow> flow_loop toLower fs' evs)"

text \<open>
  The second loop: the events whose flow is neither nil nor hidden are formatted and
  written to the new body, two spaces between them.
\<close>

fun render_loop ::
  "(String.string \<Rightarrow> StyledString) \<Rightarrow> flow list \<Rightarrow> (event \<times> nat option) list \<Rightarrow> bool \<Rightarrow>
   StyledStringBuilder \<Rightarrow> StyledStringBuilder" where
  "render_loop IRCString store [] first_one newBody = newBody"
| "render_loop IRCString store ((ev, None) # rest) first_one newBody =
     render_loop IRCString store rest first_one newBody"
| "render_loop IRCString store ((ev, Some f) # rest) first_one newBody =
     (if hide (store ! f) then render_loop IRCString store rest first_one newBody
      else
        let l = formatEvent IRCString ev;
            newBody = (if first_one then newBody else WriteString newBody ''  '');
            newBody = WriteStyledString newBody (Body l)
        in render_loop IRCString store rest False newBody)"

text \<open>
  The type assertions \<^verbatim>\<open>former.Data.([]irc.Event)\<close> and \<^verbatim>\<open>addition.Data.([]irc.Event)\<close>
  panic on a line that carries no events.
\<close>

definition mergeLine ::
  "(String.string \<Rightarrow> String.string) \<Rightarrow> (String.string \<Rightarrow> StyledString) \<Rightarrow> Line \<Rightarrow> Line \<Rightarrow>
   panic + Line" where
  "mergeLine toLower IRCString former addition =
     (case Data former of
        None \<Rightarrow> Inl Panic
      | Some e1 \<Rightarrow>
          (case Data addition of
             None \<Rightarrow> Inl Panic
           | Some e2 \<Rightarrow>
               let events = e1 @ e2 in
               (case flow_loop toLower ([], Map.empty, []) events of
                  Inl p \<Rightarrow> Inl p
                | Inr (store, flows, eventFlows) \<Rightarrow>
                    let newBody = render_loop IRCString store (zip events eventFlows) True
                                    new_builder
                    in Inr (former\<lparr>Body := StyledString_of newBody, Data := Some events\<rparr>))))"

section \<open>Split points and wrapping of a line (\<^verbatim>\<open>ui/buffers.go\<close>)\<close>

text \<open>
  The type \<^verbatim>\<open>int\<close> of Go has 64 bits.  The widths, indices and counters below are
  unbounded integers: they count bytes, cells, lines and calls, and stay far from the
  bounds of the machine type.
\<close>

text \<open>
  A Go string is a sequence of bytes; \<^verbatim>\<open>for i, r := range s\<close> decodes it as UTF-8 and
  yields, for every code point, the index of its first byte and its value.  A byte that
  does not start a well-formed encoding yields U+FFFD and is one byte wide.
\<close>

type_synonym rune = nat

definition RuneError :: rune where
  "RuneError = 0xFFFD"

definition is_cont :: "nat \<Rightarrow> bool" where
  "is_cont b = (0x80 \<le> b \<and> b \<le> 0xBF)"

text \<open>The rune at the head of a sequence of bytes, and the number of bytes it takes.\<close>

fun decodeRune :: "nat list \<Rightarrow> rune \<times> nat" where
  "decodeRune [] = (RuneError, 0)"
| "decodeRune (b0 # rest) =
     (if b0 < 0x80 then (b0, 1)
      else if 0xC2 \<le> b0 \<and> b0 \<le> 0xDF then
        (case rest of
           b1 # _ \<Rightarrow>
             if is_cont b1 then ((b0 mod 32) * 64 + b1 mod 64, 2) else (RuneError, 1)
         | _ \<Rightarrow> (RuneError, 1))
      else if 0xE0 \<le> b0 \<and> b0 \<le> 0xEF then
        (let lo = (if b0 = 0xE0 then 0xA0 else 0x80);
             hi = (if b0 = 0xED then 0x9F else 0xBF)
         in case rest of
              b1 # b2 # _ \<Rightarrow>
                if lo \<le> b1 \<and> b1 \<le> hi \<and> is_cont b2 then
                  (((b0 mod 16) * 64 + b1 mod 64) * 64 + b2 mod 64, 3)
                else (RuneError, 1)
            | _ \<Rightarrow> (RuneError, 1))
      else if 0xF0 \<le> b0 \<and> b0 \<le> 0xF4 then
        (let lo = (if b0 = 0xF0 then 0x90 else 0x80);
             hi = (if b0 = 0xF4 then 0x8F else 0xBF)
         in case rest of
              b1 # b2 # b3 # _ \<Rightarrow>
                if lo \<le> b1 \<and> b1 \<le> hi \<and> is_cont b2 \<and> is_cont b3 then
                  ((((b0 mod 8) * 64 + b1 mod 64) * 64 + b2 mod 64) * 64 + b3 mod 64, 4)
                else (RuneError, 1)
            | _ \<Rightarrow> (RuneError, 1))
      else (RuneError, 1))"

text \<open>
  The pairs of a \<^verbatim>\<open>range\<close> loop over the bytes from index \<open>i\<close> on; \<open>skip\<close> counts the
  bytes that still belong to the rune decoded last.
\<close>

fun range_from :: "nat \<Rightarrow> nat \<Rightarrow> nat list \<Rightarrow> (int \<times> rune) list" where
  "range_from i skip [] = []"
| "range_from i skip (b # bs) =
     (if 0 < skip then range_from (i + 1) (skip - 1) bs
      else (int i, fst (decodeRune (b # bs))) #
             range_from (i + 1) (snd (decodeRune (b # bs)) - 1) bs)"

definition range_string :: "String.string \<Rightarrow> (int \<times> rune) list" where
  "range_string s = range_from 0 0 (map of_char s)"

definition IsSplitRune :: "rune \<Rightarrow> bool" where
  "IsSplitRune r = (r = 0x20 \<or> r = 0x09)"

text \<open>
  \<^verbatim>\<open>computeSplitPoints\<close>.  \<open>runeWidth\<close>, a parameter, is the number of terminal cells of a
  rune.  The loop state is the width so far, \<^verbatim>\<open>lastWasSplit\<close> and the points so far.
\<close>

definition csp_step ::
  "(rune \<Rightarrow> int) \<Rightarrow> int \<times> bool \<times> point list \<Rightarrow> int \<times> rune \<Rightarrow> int \<times> bool \<times> point list" where
  "csp_step runeWidth st ir =
     (case st of (w, lastWasSplit, pts) \<Rightarrow>
      case ir of (i, r) \<Rightarrow>
        let curIsSplit = IsSplitRune r;
            pts = (if i = 0 \<or> lastWasSplit \<noteq> curIsSplit
                   then pts @ [\<lparr>X = w, I = i, Split = curIsSplit\<rparr>] else pts)
        in (w + runeWidth r, curIsSplit, pts))"

definition computeSplitPoints :: "(rune \<Rightarrow> int) \<Rightarrow> Line \<Rightarrow> Line" where
  "computeSplitPoints runeWidth l =
     (case foldl (csp_step runeWidth) (0, False, []) (range_string (string (Body l))) of
        (w, lastWasSplit, pts) \<Rightarrow>
          l\<lparr>splitPoints :=
              (if \<not> lastWasSplit
               then pts @ [\<lparr>X = w, I = int (length (string (Body l))), Split = True\<rparr>]
               else pts)\<rparr>)"

text \<open>The slice \<^verbatim>\<open>s[lo:hi]\<close>, which panics when the indices are out of range.\<close>

definition go_slice :: "String.string \<Rightarrow> int \<Rightarrow> int \<Rightarrow> panic + String.string" where
  "go_slice s lo hi =
     (if 0 \<le> lo \<and> lo \<le> hi \<and> hi \<le> int (length s)
      then Inr (take (nat hi - nat lo) (drop (nat lo) s))
      else Inl Panic)"

text \<open>The remainder \<^verbatim>\<open>a % b\<close> of Go, which truncates towards zero; \<open>b\<close> is not 0.\<close>

definition go_rem :: "int \<Rightarrow> int \<Rightarrow> int" where
  "go_rem a b = sgn a * (\<bar>a\<bar> mod \<bar>b\<bar>)"

text \<open>
  The inner loop of \<^verbatim>\<open>NewLines\<close> over the runes of a word wider than the terminal; the
  state is \<^verbatim>\<open>wordWidth\<close>, \<open>h\<close> and the new lines.
\<close>

definition word_step ::
  "(rune \<Rightarrow> int) \<Rightarrow> int \<Rightarrow> int \<Rightarrow> int \<Rightarrow> int \<times> int \<times> int list \<Rightarrow> int \<times> rune \<Rightarrow>
   int \<times> int \<times> int list" where
  "word_step runeWidth w x sp1I st jr =
     (case st of (wordWidth, h, nls) \<Rightarrow>
      case jr of (j, r) \<Rightarrow>
        let wordWidth = wordWidth + runeWidth r in
        if h * w < x + wordWidth then (wordWidth, h + 1, nls @ [sp1I + j])
        else (wordWidth, h, nls))"

text \<open>
  One turn of the loop of \<^verbatim>\<open>NewLines\<close>, for the split points \<open>sp1\<close> and \<open>sp2\<close>; \<open>sp0\<close>
  is the split point \<^verbatim>\<open>l.splitPoints[i-2]\<close> when \<^verbatim>\<open>1 < i\<close>.  The state is \<open>x\<close> and the
  new lines.  The remainder by a width of 0 panics.
\<close>

definition nl_step ::
  "(rune \<Rightarrow> int) \<Rightarrow> String.string \<Rightarrow> int \<Rightarrow> point option \<Rightarrow> point \<Rightarrow> point \<Rightarrow>
   int \<times> int list \<Rightarrow> panic + int \<times> int list" where
  "nl_step runeWidth body w sp0 sp1 sp2 st =
     (case st of (x, nls) \<Rightarrow>
        if nls \<noteq> [] \<and> x = 0 \<and> Split sp1 then Inr (x, nls)
        else if \<not> Split sp1 \<and> X sp2 - X sp1 = w then
          (let nls = (case sp0 of
                        Some p0 \<Rightarrow> if nls \<noteq> [] \<and> last nls \<noteq> I p0 then nls @ [I p0] else nls
                      | None \<Rightarrow> nls)
           in Inr (0, nls @ [I sp2]))
        else if X sp2 - X sp1 + x < w then Inr (x + (X sp2 - X sp1), nls)
        else if X sp2 - X sp1 + x = w then Inr (0, nls @ [I sp2])
        else if Split sp1 \<and> w < X sp2 - X sp1 then Inr (0, nls @ [I sp1])
        else if w < X sp2 - X sp1 then
          (case go_slice body (I sp1) (I sp2) of
             Inl p \<Rightarrow> Inl p
           | Inr word \<Rightarrow>
               (case foldl (word_step runeWidth w x (I sp1)) (0, 1, nls) (range_string word) of
                  (wordWidth, h, nls) \<Rightarrow>
                    if w = 0 then Inl Panic
                    else
                      let x = go_rem (x + wordWidth) w in
                      if x = 0 then Inr (x, nls @ [I sp2]) else Inr (x, nls)))
        else Inr (if Split sp1 then 0 else X sp2 - X sp1, nls @ [I sp1]))"

fun nl_loop ::
  "(rune \<Rightarrow> int) \<Rightarrow> String.string \<Rightarrow> int \<Rightarrow> point option \<Rightarrow> point list \<Rightarrow>
   int \<times> int list \<Rightarrow> panic + int \<times> int list" where
  "nl_loop runeWidth body w sp0 (sp1 # sp2 # rest) st =
     (case nl_step runeWidth body w sp0 sp1 sp2 st of
        Inl p \<Rightarrow> Inl p
      | Inr st' \<Rightarrow> nl_loop runeWidth body w (Some sp1) (sp2 # rest) st')"
| "nl_loop runeWidth body w sp0 sps st = Inr st"

text \<open>
  The computation that \<^verbatim>\<open>NewLines\<close> runs when the width is not the cached one: the loop
  from an empty vector, then the removal of a new line at the very end of the body.
\<close>

definition wrap :: "(rune \<Rightarrow> int) \<Rightarrow> Line \<Rightarrow> int \<Rightarrow> panic + int list" where
  "wrap runeWidth l w =
     (case nl_loop runeWidth (string (Body l)) w None (splitPoints l) (0, []) of
        Inl p \<Rightarrow> Inl p
      | Inr (x, nls) \<Rightarrow>
          Inr (if nls \<noteq> [] \<and> last nls = int (length (string (Body l)))
               then butlast nls else nls))"

text \<open>
  \<^verbatim>\<open>NewLines\<close> returns the wrap indices and updates the cache of the line.  A call
  that panics is only recorded as such: the line that it leaves behind is not modelled.
\<close>

definition NewLines :: "(rune \<Rightarrow> int) \<Rightarrow> Line \<Rightarrow> int \<Rightarrow> panic + int list \<times> Line" where
  "NewLines runeWidth l w =
     (if width l = w then Inr (newLines l, l)
      else
        (case wrap runeWidth l w of
           Inl p \<Rightarrow> Inl p
         | Inr nls \<Rightarrow> Inr (nls, l\<lparr>width := w, newLines := nls\<rparr>)))"

text \<open>A width function for the evaluations below: one cell for every rune.\<close>

definition width_one :: "rune \<Rightarrow> int" where
  "width_one r = 1"

section \<open>Buffers and the buffer list (\<^verbatim>\<open>ui/buffers.go\<close>)\<close>

datatype NotifyType = NotifyNone | NotifyUnread | NotifyHighlight

definition Overlay :: String.string where
  "Overlay = ''/overlay''"

record buffer =
  netID :: String.string
  netName :: String.string
  title :: String.string
  highlights :: int
  unread :: bool
  read :: instant
  openedOnce :: bool
  lines :: "Line list"
  topic :: String.string
  scrollAmt :: int
  isAtTop :: bool

text \<open>The Go literal \<^verbatim>\<open>buffer{netID: i, netName: n, title: t}\<close>.\<close>

definition buffer_lit :: "String.string \<Rightarrow> String.string \<Rightarrow> String.string \<Rightarrow> buffer" where
  "buffer_lit i n t =
     \<lparr>netID = i, netName = n, title = t, highlights = 0, unread = False, read = 0,
      openedOnce = False, lines = [], topic = [], scrollAmt = 0, isAtTop = False\<rparr>"

text \<open>
  \<^verbatim>\<open>ColorScheme\<close> (\<^verbatim>\<open>ui/colors.go\<close>) and \<^verbatim>\<open>ConfigColors\<close>, with the four fields of its
  declaration.  The buffer list stores the colors; none of the functions below reads
  them.
\<close>

datatype ColorSchemeType = ColorSchemeBase | ColorSchemeExtended | ColorSchemeFixed

record ColorScheme =
  Type :: ColorSchemeType
  Others :: color
  Self :: color

record ConfigColors =
  Status :: color
  Prompt :: color
  Unread :: color
  Nicks :: ColorScheme

text \<open>
  \<^verbatim>\<open>BufferList\<close>.  The callback \<^verbatim>\<open>doMergeLine\<close> changes the former line in place; here it
  returns the changed line, or panics.
\<close>

record BufferList =
  colors :: ConfigColors
  list :: "buffer list"
  overlay :: "buffer option"
  current :: int
  clicked :: int
  tlInnerWidth :: int
  tlHeight :: int
  showBufferNumbers :: bool
  doMergeLine :: "Line \<Rightarrow> Line \<Rightarrow> panic + Line"

definition NewBufferList :: "ConfigColors \<Rightarrow> (Line \<Rightarrow> Line \<Rightarrow> panic + Line) \<Rightarrow> BufferList" where
  "NewBufferList cs merge_line =
     \<lparr>colors = cs, list = [], overlay = None, current = 0, clicked = - 1, tlInnerWidth = 0,
      tlHeight = 0, showBufferNumbers = False, doMergeLine = merge_line\<rparr>"

definition OpenOverlay :: "BufferList \<Rightarrow> BufferList" where
  "OpenOverlay bs = bs\<lparr>overlay := Some (buffer_lit [] [] Overlay)\<rparr>"

text \<open>
  A \<^verbatim>\<open>*buffer\<close> that is not nil points to the overlay or to an element of the list.
\<close>

datatype bufref = OverlayRef | ListRef nat

definition deref :: "BufferList \<Rightarrow> bufref \<Rightarrow> buffer option" where
  "deref bs r =
     (case r of
        OverlayRef \<Rightarrow> overlay bs
      | ListRef i \<Rightarrow> if i < length (list bs) then Some (list bs ! i) else None)"

definition assign :: "BufferList \<Rightarrow> bufref \<Rightarrow> buffer \<Rightarrow> BufferList" where
  "assign bs r b =
     (case r of
        OverlayRef \<Rightarrow> bs\<lparr>overlay := Some b\<rparr>
      | ListRef i \<Rightarrow> bs\<lparr>list := (list bs)[i := b]\<rparr>)"

text \<open>
  \<^verbatim>\<open>at\<close>: the index and the pointer of the first buffer with the network and, up to
  case, the title.  \<open>toLower\<close> is \<^verbatim>\<open>strings.ToLower\<close>.
\<close>

fun at_loop ::
  "(String.string \<Rightarrow> String.string) \<Rightarrow> String.string \<Rightarrow> String.string \<Rightarrow> nat \<Rightarrow> buffer list \<Rightarrow>
   nat option" where
  "at_loop toLower nid lTitle i [] = None"
| "at_loop toLower nid lTitle i (b # rest) =
     (if netID b = nid \<and> toLower (title b) = lTitle then Some i
      else at_loop toLower nid lTitle (i + 1) rest)"

definition at ::
  "(String.string \<Rightarrow> String.string) \<Rightarrow> BufferList \<Rightarrow> String.string \<Rightarrow> String.string \<Rightarrow>
   int \<times> bufref option" where
  "at toLower bs nid ttl =
     (if nid = [] \<and> ttl = Overlay then
        (- 1, if overlay bs = None then None else Some OverlayRef)
      else
        (case at_loop toLower nid (toLower ttl) 0 (list bs) of
           Some i \<Rightarrow> (int i, Some (ListRef i))
         | None \<Rightarrow> (- 1, None)))"

text \<open>\<^verbatim>\<open>cur\<close>; \<^verbatim>\<open>&bs.list[bs.current]\<close> panics when the index is out of range.\<close>

definition cur :: "BufferList \<Rightarrow> panic + bufref" where
  "cur bs =
     (if overlay bs \<noteq> None then Inr OverlayRef
      else if 0 \<le> current bs \<and> current bs < int (length (list bs))
        then Inr (ListRef (nat (current bs)))
      else Inl Panic)"

text \<open>The two assignments \<^verbatim>\<open>highlights = 0\<close> and \<^verbatim>\<open>unread = false\<close> of a focused buffer.\<close>

definition reset_notify :: "buffer \<Rightarrow> buffer" where
  "reset_notify b = b\<lparr>highlights := 0, unread := False\<rparr>"

definition To :: "BufferList \<Rightarrow> int \<Rightarrow> panic + bool \<times> BufferList" where
  "To bs i =
     (let bs = bs\<lparr>overlay := None\<rparr> in
      if i = current bs then Inr (False, bs)
      else if 0 \<le> i then
        (let bs = bs\<lparr>current := i\<rparr>;
             bs = (if int (length (list bs)) \<le> current bs
                   then bs\<lparr>current := int (length (list bs)) - 1\<rparr> else bs)
         in if 0 \<le> current bs \<and> current bs < int (length (list bs)) then
              Inr (True,
                   bs\<lparr>list := (list bs)[nat (current bs) :=
                                  reset_notify (list bs ! nat (current bs))]\<rparr>)
            else Inl Panic)
      else Inr (False, bs))"

text \<open>
  \<^verbatim>\<open>Next\<close> and \<^verbatim>\<open>Previous\<close>.  The remainder by the length of an empty list panics, and so
  does \<^verbatim>\<open>cur\<close> on a negative index.
\<close>

definition Next :: "BufferList \<Rightarrow> panic + BufferList" where
  "Next bs =
     (let bs = bs\<lparr>overlay := None\<rparr> in
      if list bs = [] then Inl Panic
      else
        let bs = bs\<lparr>current := go_rem (current bs + 1) (int (length (list bs)))\<rparr> in
        (case cur bs of
           Inl p \<Rightarrow> Inl p
         | Inr b \<Rightarrow>
             (case deref bs b of
                None \<Rightarrow> Inl Panic
              | Some bb \<Rightarrow> Inr (assign bs b (reset_notify bb)))))"

definition Previous :: "BufferList \<Rightarrow> panic + BufferList" where
  "Previous bs =
     (let bs = bs\<lparr>overlay := None\<rparr> in
      if list bs = [] then Inl Panic
      else
        let bs = bs\<lparr>current := go_rem (current bs - 1 + int (length (list bs)))
                                  (int (length (list bs)))\<rparr> in
        (case cur bs of
           Inl p \<Rightarrow> Inl p
         | Inr b \<Rightarrow>
             (case deref bs b of
                None \<Rightarrow> Inl Panic
              | Some bb \<Rightarrow> Inr (assign bs b (reset_notify bb)))))"

text \<open>
  The loop of \<^verbatim>\<open>Add\<close>.  In the source \<open>i\<close> is set to \<open>bi + 1\<close> on every turn that
  continues, and a turn that does not continue ends the loop: at the start of a turn
  \<open>i\<close> equals the index \<open>bi\<close>, and the model carries this one index.  The result is
  \<open>i\<close>, the network name, which the loop may have looked up, and whether the loop
  ended without finding the title (the source returns \<open>(i, false)\<close> when it finds it).
\<close>

fun add_loop ::
  "(String.string \<Rightarrow> String.string) \<Rightarrow> String.string \<Rightarrow> String.string \<Rightarrow> nat \<Rightarrow> String.string \<Rightarrow>
   buffer list \<Rightarrow> nat \<times> String.string \<times> bool" where
  "add_loop toLower nid lTitle i nname [] = (i, nname, True)"
| "add_loop toLower nid lTitle i nname (b # rest) =
     (let nname = (if nname = [] \<and> netID b = nid then netName b else nname) in
      if nname = [] \<or> netName b < nname then add_loop toLower nid lTitle (i + 1) nname rest
      else if netName b > nname then (i, nname, True)
      else
        let lbTitle = toLower (title b) in
        if lbTitle < lTitle then add_loop toLower nid lTitle (i + 1) nname rest
        else if lbTitle = lTitle then (i, nname, False)
        else (i, nname, True))"

definition Add ::
  "(String.string \<Rightarrow> String.string) \<Rightarrow> BufferList \<Rightarrow> String.string \<Rightarrow> String.string \<Rightarrow> String.string \<Rightarrow>
   (int \<times> bool) \<times> BufferList" where
  "Add toLower bs nid nname ttl =
     (case add_loop toLower nid (toLower ttl) 0 nname (list bs) of
        (i, nname, added) \<Rightarrow>
          if \<not> added then ((int i, False), bs)
          else
            let bs = (if int i \<le> current bs \<and> current bs < int (length (list bs))
                      then bs\<lparr>current := current bs + 1\<rparr> else bs);
                b = buffer_lit nid nname ttl
            in ((int i, True), bs\<lparr>list := take i (list bs) @ [b] @ drop i (list bs)\<rparr>))"

text \<open>
  \<^verbatim>\<open>Remove\<close>.  The test \<^verbatim>\<open>b == bs.overlay\<close> also holds when nothing was found and no
  overlay is open, both pointers being nil.
\<close>

definition Remove ::
  "(String.string \<Rightarrow> String.string) \<Rightarrow> BufferList \<Rightarrow> String.string \<Rightarrow> String.string \<Rightarrow>
   bool \<times> BufferList" where
  "Remove toLower bs nid ttl =
     (case at toLower bs nid ttl of
        (idx, b) \<Rightarrow>
          if b = Some OverlayRef \<or> (b = None \<and> overlay bs = None) then
            (False, bs\<lparr>overlay := None\<rparr>)
          else if idx < 0 then (False, bs)
          else
            let bs = bs\<lparr>list := take (nat idx) (list bs) @ drop (nat idx + 1) (list bs)\<rparr> in
            (True, if int (length (list bs)) \<le> current bs
                   then bs\<lparr>current := current bs - 1\<rparr> else bs))"

text \<open>
  \<^verbatim>\<open>BufferList.mergeLine\<close>: the pair of \<^verbatim>\<open>keepLine\<close> and the former line as the call
  leaves it.
\<close>

definition bs_mergeLine ::
  "(rune \<Rightarrow> int) \<Rightarrow> BufferList \<Rightarrow> Line \<Rightarrow> Line \<Rightarrow> panic + bool \<times> Line" where
  "bs_mergeLine runeWidth bs former addition =
     (case doMergeLine bs former addition of
        Inl p \<Rightarrow> Inl p
      | Inr former \<Rightarrow>
          if string (Body former) = [] then Inr (False, former)
          else Inr (True, computeSplitPoints runeWidth (former\<lparr>width := 0\<rparr>)))"

text \<open>
  \<^verbatim>\<open>AddLine\<close>, in the three blocks of the source after the look-up of the two buffers.
  \<open>ParseURLs\<close>, a parameter, is \<^verbatim>\<open>StyledString.ParseURLs\<close>; \<open>now\<close> is the value of
  \<^verbatim>\<open>time.Now()\<close>.  \<open>b\<close> is the target buffer, \<open>is_current\<close> tells whether the pointers
  \<^verbatim>\<open>b\<close> and \<^verbatim>\<open>current\<close> are equal.

  First block: the separator.
\<close>

definition separator :: "instant \<Rightarrow> Line" where
  "separator now = LineLit now (Styled ''---'' (Foreground ColorRed))"

definition add_separator :: "instant \<Rightarrow> NotifyType \<Rightarrow> bool \<Rightarrow> buffer \<Rightarrow> buffer" where
  "add_separator now notify is_current b =
     (if notify \<noteq> NotifyNone \<and> \<not> is_current \<and> \<not> unread b
      then b\<lparr>lines := lines b @ [separator now], unread := True\<rparr>
      else b)"

text \<open>
  Second block: the line is merged into the line at index \<open>n - 1\<close>, where \<open>n\<close> is the
  number of lines before the first block, or it is appended.
\<close>

definition merge_or_append ::
  "(rune \<Rightarrow> int) \<Rightarrow> BufferList \<Rightarrow> bool \<Rightarrow> nat \<Rightarrow> Line \<Rightarrow> buffer \<Rightarrow> panic + buffer" where
  "merge_or_append runeWidth bs is_current n line b =
     (if Mergeable line \<and> n \<noteq> 0 \<and> Mergeable (lines b ! (n - 1)) then
        (case bs_mergeLine runeWidth bs (lines b ! (n - 1)) line of
           Inl p \<Rightarrow> Inl p
         | Inr (keepLine, l) \<Rightarrow>
             let b = b\<lparr>lines := (lines b)[n - 1 := l]\<rparr> in
             if \<not> keepLine then Inr (b\<lparr>lines := take (n - 1) (lines b)\<rparr>) else Inr b)
      else
        (let line = computeSplitPoints runeWidth line;
             b = b\<lparr>lines := lines b @ [line]\<rparr>
         in if is_current \<and> 0 < scrollAmt b then
              (case NewLines runeWidth line (tlInnerWidth bs) of
                 Inl p \<Rightarrow> Inl p
               | Inr (nls, line') \<Rightarrow> Inr (b\<lparr>scrollAmt := scrollAmt b + int (length nls) + 1\<rparr>))
            else Inr b))"

text \<open>Third block: the count of highlights.\<close>

definition count_highlight :: "NotifyType \<Rightarrow> bool \<Rightarrow> buffer \<Rightarrow> buffer" where
  "count_highlight notify is_current b =
     (if notify = NotifyHighlight \<and> \<not> is_current then b\<lparr>highlights := highlights b + 1\<rparr>
      else b)"

definition AddLine ::
  "(String.string \<Rightarrow> String.string) \<Rightarrow> (StyledString \<Rightarrow> StyledString) \<Rightarrow> (rune \<Rightarrow> int) \<Rightarrow> instant \<Rightarrow>
   BufferList \<Rightarrow> String.string \<Rightarrow> String.string \<Rightarrow> NotifyType \<Rightarrow> Line \<Rightarrow> panic + BufferList" where
  "AddLine toLower ParseURLs runeWidth now bs nid ttl notify line =
     (case snd (at toLower bs nid ttl) of
        None \<Rightarrow> Inr bs
      | Some b \<Rightarrow>
          (case cur bs of
             Inl p \<Rightarrow> Inl p
           | Inr cu \<Rightarrow>
               (case (deref bs b, deref bs cu) of
                  (Some bb, Some cb) \<Rightarrow>
                    let n = length (lines bb);
                        line = (if \<not> Mergeable line \<and> openedOnce cb
                                then line\<lparr>Body := ParseURLs (Body line)\<rparr> else line);
                        bb = add_separator now notify (b = cu) bb
                    in (case merge_or_append runeWidth bs (b = cu) n line bb of
                          Inl p \<Rightarrow> Inl p
                        | Inr bb \<Rightarrow>
                            Inr (assign bs b (count_highlight notify (b = cu) bb)))
                | _ \<Rightarrow> Inl Panic)))"

text \<open>
  \<^verbatim>\<open>AddLines\<close>.  The inner loop, for one of the three sequences \<^verbatim>\<open>before\<close>, \<^verbatim>\<open>b.lines\<close>
  and \<^verbatim>\<open>after\<close>; \<open>own\<close> tells whether the sequence is \<^verbatim>\<open>b.lines\<close>.
\<close>

fun addLines_loop ::
  "(StyledString \<Rightarrow> StyledString) \<Rightarrow> (rune \<Rightarrow> int) \<Rightarrow> BufferList \<Rightarrow> bool \<Rightarrow> bool \<Rightarrow>
   Line list \<Rightarrow> Line list \<Rightarrow> panic + Line list" where
  "addLines_loop ParseURLs runeWidth bs opened own acc [] = Inr acc"
| "addLines_loop ParseURLs runeWidth bs opened own acc (line # rest) =
     (if Mergeable line \<and> acc \<noteq> [] \<and> Mergeable (last acc) then
        (case bs_mergeLine runeWidth bs (last acc) line of
           Inl p \<Rightarrow> Inl p
         | Inr (keepLine, l) \<Rightarrow>
             addLines_loop ParseURLs runeWidth bs opened own
               (if keepLine then butlast acc @ [l] else butlast acc) rest)
      else
        (let line = (if \<not> own
                     then computeSplitPoints runeWidth
                            (if opened then line\<lparr>Body := ParseURLs (Body line)\<rparr> else line)
                     else line)
         in addLines_loop ParseURLs runeWidth bs opened own (acc @ [line]) rest))"

definition AddLines ::
  "(String.string \<Rightarrow> String.string) \<Rightarrow> (StyledString \<Rightarrow> StyledString) \<Rightarrow> (rune \<Rightarrow> int) \<Rightarrow>
   BufferList \<Rightarrow> String.string \<Rightarrow> String.string \<Rightarrow> Line list \<Rightarrow> Line list \<Rightarrow> panic + BufferList" where
  "AddLines toLower ParseURLs runeWidth bs nid ttl before after =
     (case snd (at toLower bs nid ttl) of
        None \<Rightarrow> Inr bs
      | Some b \<Rightarrow>
          (case deref bs b of
             None \<Rightarrow> Inl Panic
           | Some bb \<Rightarrow>
               (case addLines_loop ParseURLs runeWidth bs (openedOnce bb) False [] before of
                  Inl p \<Rightarrow> Inl p
                | Inr l1 \<Rightarrow>
                    (case addLines_loop ParseURLs runeWidth bs (openedOnce bb) True l1 (lines bb) of
                       Inl p \<Rightarrow> Inl p
                     | Inr l2 \<Rightarrow>
                         (case addLines_loop ParseURLs runeWidth bs (openedOnce bb) False l2 after of
                            Inl p \<Rightarrow> Inl p
                          | Inr l3 \<Rightarrow> Inr (assign bs b (bb\<lparr>lines := l3\<rparr>)))))))"

text \<open>
  The order of the specification: network names in ascending order, then titles in
  ascending order, both compared after case folding.
\<close>

definition spec_le :: "(String.string \<Rightarrow> String.string) \<Rightarrow> buffer \<Rightarrow> buffer \<Rightarrow> bool" where
  "spec_le toLower a b =
     (toLower (netName a) < toLower (netName b) \<or>
      (toLower (netName a) = toLower (netName b) \<and> toLower (title a) \<le> toLower (title b)))"

text \<open>
  The order that \<^verbatim>\<open>Add\<close> compares with: network names as they are, byte by byte, then
  titles after case folding.
\<close>

definition buf_le :: "(String.string \<Rightarrow> String.string) \<Rightarrow> buffer \<Rightarrow> buffer \<Rightarrow> bool" where
  "buf_le toLower a b =
     (netName a < netName b \<or>
      (netName a = netName b \<and> toLower (title a) \<le> toLower (title b)))"

definition buf_less :: "(String.string \<Rightarrow> String.string) \<Rightarrow> buffer \<Rightarrow> buffer \<Rightarrow> bool" where
  "buf_less toLower a b =
     (netName a < netName b \<or>
      (netName a = netName b \<and> toLower (title a) < toLower (title b)))"

section \<open>Operations on the list of buffers in sequence\<close>

text \<open>
  The network name that \<^verbatim>\<open>Add\<close> gives to a new buffer: the name that is passed or, when
  that is empty, the name that the loop of \<^verbatim>\<open>Add\<close> looks up, which is the name of the
  first buffer of the network that has a name.
\<close>

definition new_netName :: "buffer list \<Rightarrow> String.string \<Rightarrow> String.string \<Rightarrow> String.string" where
  "new_netName xs nid nname =
     (if nname \<noteq> [] then nname
      else (case find (\<lambda>b. netID b = nid \<and> netName b \<noteq> []) xs of
              Some d \<Rightarrow> netName d
            | None \<Rightarrow> []))"

text \<open>
  The calls of \<^verbatim>\<open>Add\<close> that the results below are about: any call that passes a network
  name, and a call that passes none for a network that has a named buffer in the list,
  when no buffer of another network carries that name.
\<close>

definition add_ok :: "buffer list \<Rightarrow> String.string \<Rightarrow> String.string \<Rightarrow> bool" where
  "add_ok xs nid nname =
     (nname \<noteq> [] \<or>
      (case find (\<lambda>b. netID b = nid \<and> netName b \<noteq> []) xs of
         None \<Rightarrow> False
       | Some d \<Rightarrow> list_all (\<lambda>b. netName b = netName d \<longrightarrow> netID b = nid) xs))"

text \<open>The buffer lists that such calls of \<^verbatim>\<open>Add\<close> and any calls of \<^verbatim>\<open>Remove\<close> build.\<close>

inductive reachable :: "(String.string \<Rightarrow> String.string) \<Rightarrow> BufferList \<Rightarrow> bool"
  for toLower :: "String.string \<Rightarrow> String.string" where
  new: "reachable toLower (NewBufferList cs merge_line)"
| add: "reachable toLower bs \<Longrightarrow> add_ok (list bs) nid nname \<Longrightarrow>
        reachable toLower (snd (Add toLower bs nid nname ttl))"
| remove: "reachable toLower bs \<Longrightarrow> reachable toLower (snd (Remove toLower bs nid ttl))"

section \<open>Concrete buffer lists\<close>

text \<open>
  The states below are built with the operations themselves, from a new buffer list
  whose callback is \<^verbatim>\<open>App.mergeLine\<close>: two buffers \<open>#a\<close> and \<open>#b\<close> of one network, the
  first of which has the focus.
\<close>

definition colors_ex :: ConfigColors where
  "colors_ex =
     \<lparr>Status = ColorGray, Prompt = ColorDefault, Unread = ColorDefault,
      Nicks = \<lparr>Type = ColorSchemeBase, Others = ColorDefault, Self = ColorDefault\<rparr>\<rparr>"

text \<open>An \<^verbatim>\<open>IRCString\<close> for texts without formatting codes.\<close>

definition IRCString_ex :: "String.string \<Rightarrow> StyledString" where
  "IRCString_ex s = Styled s StyleDefault"

definition merge_ex :: "Line \<Rightarrow> Line \<Rightarrow> panic + Line" where
  "merge_ex = mergeLine ascii_lower IRCString_ex"

definition bs0 :: BufferList where
  "bs0 = NewBufferList colors_ex merge_ex"

definition bs1 :: BufferList where
  "bs1 = snd (Add ascii_lower bs0 ''net'' ''net'' ''#a'')"

definition bs2 :: BufferList where
  "bs2 = snd (Add ascii_lower bs1 ''net'' ''net'' ''#b'')"

text \<open>
  A \<^verbatim>\<open>ParseURLs\<close> that finds no URL, and the buffer list \<open>bs1\<close> with the search overlay
  open.  \<open>bs_hl\<close> is \<open>bs_ov\<close> after a highlight line for \<open>#a\<close>.
\<close>

definition ParseURLs_ex :: "StyledString \<Rightarrow> StyledString" where
  "ParseURLs_ex s = s"

definition bs_ov :: BufferList where
  "bs_ov = OpenOverlay bs1"

definition buf_hl :: buffer where
  "buf_hl = (buffer_lit ''net'' ''net'' ''#a'')
     \<lparr>highlights := 1, unread := True,
      lines := [separator 0, computeSplitPoints width_one (line_ex 1 ''hi'')]\<rparr>"

definition bs_hl :: BufferList where
  "bs_hl = assign bs_ov (ListRef 0) buf_hl"

text \<open>A line with the body of the wrap scenario, its split points computed.\<close>

definition line_hello :: Line where
  "line_hello = computeSplitPoints width_one (line_ex 1 ''hello world foo bar'')"

text \<open>The lines of two nick changes, from \<open>alice\<close> to \<open>bob\<close> and back.\<close>

definition nick_ab :: Line where
  "nick_ab = formatEvent IRCString_ex (UserNickEvent ''alice'' ''bob'' 1)"

definition nick_ba :: Line where
  "nick_ba = formatEvent IRCString_ex (UserNickEvent ''bob'' ''alice'' 2)"

text \<open>What \<^verbatim>\<open>App.mergeLine\<close> makes of the first of these lines when the second is merged.\<close>

definition nick_merged :: Line where
  "nick_merged = nick_ab
     \<lparr>Body := \<lparr>string = ''alice'' @ arrow @ ''bob  bob'' @ arrow @ ''alice'',
                styles = [(0, Foreground ColorGray), (5, StyleDefault), (8, Foreground ColorGray),
                          (13, Foreground ColorGray), (16, StyleDefault),
                          (19, Foreground ColorGray)]\<rparr>,
      Data := Some [UserNickEvent ''alice'' ''bob'' 1, UserNickEvent ''bob'' ''alice'' 2]\<rparr>"

text \<open>The lines of a join and of a part of \<open>bob\<close>.\<close>

definition join_bob :: Line where
  "join_bob = formatEvent IRCString_ex (UserJoinEvent ''#b'' ''bob'' 1)"

definition part_bob :: Line where
  "part_bob = formatEvent IRCString_ex (UserPartEvent ''#b'' ''bob'' 2)"




text \<open>
  A new buffer list to which the home buffers of two networks are added, the network
  \<open>n1\<close> named \<open>a\<close> and then the network \<open>n2\<close> named \<open>B\<close>.
\<close>

definition bs_aB :: BufferList where
  "bs_aB = snd (Add ascii_lower (snd (Add ascii_lower bs0 ''n1'' ''a'' [])) ''n2'' ''B'' [])"

section \<open>Properties of the history bounds\<close>

lemma Truncate_second_le: "Truncate t second \<le> t"
  by (simp add: Truncate_def second_def)

lemma Truncate_second_mult [simp]: "Truncate (n * second) second = n * second"
  by (simp add: Truncate_def second_def)

lemma line_ex_simps [simp]:
  "At (line_ex n s) = n * second" "String_of (Body (line_ex n s)) = s"
  by (simp_all add: line_ex_def LineLit_def Styled_def String_of_def)

text \<open>
  Claim C3, as stated, at a concrete input: the bound spans 100 s to 200 s with first
  message \<open>a\<close>; the line is at 100 s with body \<open>x\<close>.  The time of the line is not
  zero, \<^verbatim>\<open>Update\<close> leaves the bound as it is, and \<^verbatim>\<open>Compare\<close> still answers -1, not 0.
\<close>

theorem C3_Update_then_Compare_counterexample:
  "\<not> IsZeroTime (At (line_ex 100 ''x'')) \<and>
   Compare (Update bound_ex (line_ex 100 ''x'')) (line_ex 100 ''x'') = - 1"
  by (simp add: Compare_def Update_def bound_ex_def IsZeroTime_def Let_def second_def
      Truncate_def)

text \<open>
  Claim C3, amended.  For every line \<open>L\<close> with a non-zero timestamp and every bound
  \<open>B\<close> whose first and last timestamps are both set, the first not after the last:
  after \<^verbatim>\<open>B.Update(L)\<close> the first timestamp is not after the second-truncated time of
  \<open>L\<close> and the last timestamp is not before it, and \<^verbatim>\<open>Compare(L)\<close> returns 0, except
  when that time equals the former first (or last) timestamp of \<open>B\<close> while the body of
  \<open>L\<close> differs from the first (or last) message of \<open>B\<close>, where it returns -1.
\<close>

theorem C3_Update_includes_line:
  assumes "\<not> IsZeroTime (At L)"
    and "\<not> IsZeroTime (first B)" and "\<not> IsZeroTime (last_b B)"
    and "first B \<le> last_b B"
  shows "first (Update B L) \<le> Truncate (At L) second \<and>
         Truncate (At L) second \<le> last_b (Update B L) \<and>
         Compare (Update B L) L =
           (if (Truncate (At L) second = first B \<and> String_of (Body L) \<noteq> firstMessage B) \<or>
               (Truncate (At L) second = last_b B \<and> String_of (Body L) \<noteq> lastMessage B)
            then - 1 else 0)"
  using assms by (auto simp add: Compare_def Update_def Let_def)

theorem C3_Update_includes_line_witness:
  "\<not> IsZeroTime (At (line_ex 50 ''x'')) \<and> \<not> IsZeroTime (first bound_ex) \<and>
   \<not> IsZeroTime (last_b bound_ex) \<and> first bound_ex \<le> last_b bound_ex \<and>
   first (Update bound_ex (line_ex 50 ''x'')) \<le> 50 * second \<and>
   50 * second \<le> last_b (Update bound_ex (line_ex 50 ''x'')) \<and>
   Compare (Update bound_ex (line_ex 50 ''x'')) (line_ex 50 ''x'') = 0"
proof -
  have h1: "\<not> IsZeroTime (At (line_ex 50 ''x''))"
    by (simp add: IsZeroTime_def second_def)
  have h2: "\<not> IsZeroTime (first bound_ex)" "\<not> IsZeroTime (last_b bound_ex)"
    by (simp_all add: IsZeroTime_def second_def bound_ex_def)
  have h3: "first bound_ex \<le> last_b bound_ex"
    by (simp add: bound_ex_def second_def)
  have ne: "50 * second \<noteq> first bound_ex" "50 * second \<noteq> last_b bound_ex"
    by (simp_all add: bound_ex_def second_def)
  from C3_Update_includes_line [OF h1 h2 h3] ne h1 h2 h3 show ?thesis
    by simp
qed

text \<open>
  The bound that one \<^verbatim>\<open>Update\<close> builds from the zero bound has its first timestamp
  set and its last timestamp still zero; \<^verbatim>\<open>Compare\<close> then places the very line it was
  built from after the bound.
\<close>

lemma Update_zero_bound:
  "Update bound_zero (line_ex 100 ''a'') =
     \<lparr>first = 100 * second, last_b = 0, firstMessage = ''a'', lastMessage = []\<rparr>"
  "Compare (Update bound_zero (line_ex 100 ''a'')) (line_ex 100 ''a'') = 1"
  by (simp_all add: Compare_def Update_def bound_zero_def IsZeroTime_def Let_def second_def
      Truncate_def)

text \<open>
  Claim C4, as stated, at a concrete input: the bound is the non-empty bound that
  \<^verbatim>\<open>Update\<close> builds from the zero bound and a line at 100 s with body \<open>a\<close>.  A line
  at 100 s with body \<open>x\<close> has the time of \<^verbatim>\<open>first\<close> and a body that differs from
  \<^verbatim>\<open>firstMessage\<close>, and \<^verbatim>\<open>Compare\<close> returns 1, not -1.
\<close>

theorem C4_Compare_counterexample:
  "\<not> bound_IsZero (Update bound_zero (line_ex 100 ''a'')) \<and>
   Truncate (At (line_ex 100 ''x'')) second = first (Update bound_zero (line_ex 100 ''a'')) \<and>
   String_of (Body (line_ex 100 ''x'')) \<noteq> firstMessage (Update bound_zero (line_ex 100 ''a'')) \<and>
   Compare (Update bound_zero (line_ex 100 ''a'')) (line_ex 100 ''x'') = 1"
  by (simp add: Compare_def Update_def bound_zero_def bound_IsZero_def IsZeroTime_def
      Let_def second_def Truncate_def)

text \<open>
  Claim C4, amended.  For every bound \<open>B\<close> whose first timestamp is not after its last
  timestamp and every line \<open>L\<close>, with \<open>t\<close> the second-truncated time of \<open>L\<close>:
  \<^verbatim>\<open>B.Compare(L)\<close> returns -1 when \<open>t\<close> is before \<^verbatim>\<open>B.first\<close>, 1 when \<open>t\<close> is after
  \<^verbatim>\<open>B.last\<close>, 0 when \<open>t\<close> is strictly between them, and -1 when \<open>t\<close> equals
  \<^verbatim>\<open>B.first\<close> (or \<^verbatim>\<open>B.last\<close>) and the body of \<open>L\<close> differs from \<^verbatim>\<open>B.firstMessage\<close>
  (or \<^verbatim>\<open>B.lastMessage\<close>).
\<close>

theorem C4_Compare_discriminates:
  assumes "first B \<le> last_b B"
  shows "(Truncate (At L) second < first B \<longrightarrow> Compare B L = - 1) \<and>
         (last_b B < Truncate (At L) second \<longrightarrow> Compare B L = 1) \<and>
         (first B < Truncate (At L) second \<and> Truncate (At L) second < last_b B
            \<longrightarrow> Compare B L = 0) \<and>
         (Truncate (At L) second = first B \<and> String_of (Body L) \<noteq> firstMessage B
            \<longrightarrow> Compare B L = - 1) \<and>
         (Truncate (At L) second = last_b B \<and> String_of (Body L) \<noteq> lastMessage B
            \<longrightarrow> Compare B L = - 1)"
  using assms by (auto simp add: Compare_def Let_def)

theorem C4_Compare_discriminates_witness:
  "first bound_ex \<le> last_b bound_ex \<and>
   Compare bound_ex (line_ex 99 ''x'') = - 1 \<and>
   Compare bound_ex (line_ex 201 ''x'') = 1 \<and>
   Compare bound_ex (line_ex 150 ''x'') = 0 \<and>
   Compare bound_ex (line_ex 100 ''x'') = - 1 \<and>
   Compare bound_ex (line_ex 200 ''x'') = - 1"
proof -
  have h: "first bound_ex \<le> last_b bound_ex"
    by (simp add: bound_ex_def second_def)
  have v: "first bound_ex = 100 * second" "last_b bound_ex = 200 * second"
    "firstMessage bound_ex = ''a''" "lastMessage bound_ex = ''e''"
    by (simp_all add: bound_ex_def)
  have "Compare bound_ex (line_ex 99 ''x'') = - 1"
    using C4_Compare_discriminates [OF h, of "line_ex 99 ''x''"] by (simp add: v second_def Truncate_def)
  moreover have "Compare bound_ex (line_ex 201 ''x'') = 1"
    using C4_Compare_discriminates [OF h, of "line_ex 201 ''x''"] by (simp add: v second_def Truncate_def)
  moreover have "Compare bound_ex (line_ex 150 ''x'') = 0"
    using C4_Compare_discriminates [OF h, of "line_ex 150 ''x''"] by (simp add: v second_def Truncate_def)
  moreover have "Compare bound_ex (line_ex 100 ''x'') = - 1"
    using C4_Compare_discriminates [OF h, of "line_ex 100 ''x''"] by (simp add: v)
  moreover have "Compare bound_ex (line_ex 200 ''x'') = - 1"
    using C4_Compare_discriminates [OF h, of "line_ex 200 ''x''"] by (simp add: v)
  ultimately show ?thesis using h by simp
qed

section \<open>Properties of the session\<close>

lemma ascii_lower_examples [simp]:
  "ascii_lower ''bob'' = ''bob''" "ascii_lower ''#a'' = ''#a''" "ascii_lower ''#A'' = ''#a''"
  by code_simp+

lemma conn_send [simp]: "conn (send s msg) = conn s @ [msg]"
  by (simp add: send_def Let_def)

lemma typingStamps_send [simp]: "typingStamps (send s msg) = typingStamps s"
  by (simp add: send_def Let_def)

lemma enabledCaps_send [simp]: "enabledCaps (send s msg) = enabledCaps s"
  by (simp add: send_def Let_def)

text \<open>
  What the QUIT case does, for every session and message: the event lists the names
  of the channels whose member map has the user, and the channels, with their member
  maps, are left as they were.
\<close>

lemma handle_QUIT_event:
  "evts (handle_QUIT toLower FullMask msgTime now s msg) =
     evts s @ [UserPartEvt
       (map (\<lambda>(k, c). Name c)
          (filter (\<lambda>(k, c). Members c (toLower (fst (FullMask (Prefix msg)))) \<noteq> None)
             (channels s)))
       (fst (FullMask (Prefix msg)))
       (case msgTime msg of Some t \<Rightarrow> t | None \<Rightarrow> now)]"
  by (simp add: handle_QUIT_def Let_def)

lemma handle_QUIT_event_channels:
  "set (map (\<lambda>(k, c). Name c) (filter (\<lambda>(k, c). Members c u \<noteq> None) chs)) =
     {Name c | k c. (k, c) \<in> set chs \<and> u \<in> dom (Members c)}"
  by (auto simp add: image_iff dom_def)

lemma handle_QUIT_channels: "channels (handle_QUIT toLower FullMask msgTime now s msg) = channels s"
  by (simp add: handle_QUIT_def Let_def)

text \<open>The sibling case PART does remove the user from the member map of the channel.\<close>

lemma handle_PART_removes_member:
  "\<exists>s'. handle_PART ascii_lower mask_ex (\<lambda>m. None) 0 session_ex part_ex = Inr s' \<and>
        evts s' = [UserPartEvt [''#a''] ''bob'' 0] \<and>
        (\<forall>c. map_of (channels s') ''#a'' = Some c \<longrightarrow> ''bob'' \<notin> dom (Members c)) \<and>
        map_of (channels s') ''#a'' \<noteq> None"
  by (simp add: handle_PART_def Let_def session_ex_def part_ex_def mask_ex_def channel_ex_def)

text \<open>
  Claim C1 at a concrete input: the session knows the channel \<open>#a\<close> with the members
  \<open>bob\<close> and \<open>me\<close>, and receives \<open>:bob!u@h QUIT\<close>.  The event lists \<open>#a\<close>, as the claim
  says, but \<open>bob\<close> is still in the member map of \<open>#a\<close> afterwards.
\<close>

theorem C1_QUIT_keeps_member:
  "evts (handle_QUIT ascii_lower mask_ex (\<lambda>m. None) 0 session_ex quit_ex) =
     [UserPartEvt [''#a''] ''bob'' 0] \<and>
   map_option (\<lambda>c. Members c ''bob'')
     (map_of (channels (handle_QUIT ascii_lower mask_ex (\<lambda>m. None) 0 session_ex quit_ex)) ''#a'') =
     Some (Some [])"
  by (simp add: handle_QUIT_def Let_def session_ex_def quit_ex_def mask_ex_def channel_ex_def)

text \<open>
  Claim C5, as stated, at a concrete input.  The session has \<^verbatim>\<open>message-tags\<close> enabled and
  has sent a typing notice for \<open>#a\<close> at the instant 0.  Two further \<^verbatim>\<open>typing("#a")\<close>
  actions, processed 1 second and 2 seconds later and so less than 3 seconds apart, write
  nothing to the connection: both are held back by the stamp of the first notice.
\<close>

theorem C5_typing_held_back_counterexample:
  "''message-tags'' \<in> enabledCaps session_typed \<and>
   2 * second - 1 * second < 3 * second \<and>
   typingStamps session_typed ''#a'' = Some 0 \<and>
   conn session_typed = [''@+typing=active TAGMSG #a'' @ [CHR 0x0D, CHR 0x0A]] \<and>
   conn (typing ascii_lower (2 * second)
           (typing ascii_lower (1 * second) session_typed ''#a'') ''#a'') =
     conn session_typed"
  by (simp add: session_typed_def typing_def Let_def session_ex_def second_def)

text \<open>
  Claim C5, amended.  With \<^verbatim>\<open>message-tags\<close> enabled, two \<^verbatim>\<open>typing(T)\<close> actions processed
  at the instants \<open>t1\<close> and \<open>t2\<close>, less than 3 seconds apart, write exactly one line
  \<^verbatim>\<open>@+typing=active TAGMSG T\<close> to the connection, unless the session holds a stamp for the
  case-folded \<open>T\<close> that is less than 3 seconds old at both instants: then they write
  nothing.  In every state they write at most one line.  Without \<^verbatim>\<open>message-tags\<close>,
  \<^verbatim>\<open>typing(T)\<close> leaves the session as it is and sends nothing.
\<close>

theorem C5_typing_rate_limit:
  "(''message-tags'' \<in> enabledCaps s \<and> t2 - t1 < 3 * second \<longrightarrow>
      conn (typing toLower t2 (typing toLower t1 s T) T) =
        (if (case typingStamps s (toLower T) of
               Some t \<Rightarrow> t1 - t < 3 * second \<and> t2 - t < 3 * second
             | None \<Rightarrow> False)
         then conn s
         else conn s @ [''@+typing=active TAGMSG '' @ T @ [CHR 0x0D, CHR 0x0A]])) \<and>
   (''message-tags'' \<notin> enabledCaps s \<longrightarrow> typing toLower t1 s T = s)"
  by (auto simp add: typing_def Let_def split: option.splits)

theorem C5_typing_rate_limit_witness:
  "''message-tags'' \<in> enabledCaps session_ex \<and> 1 * second - 0 < 3 * second \<and>
   typingStamps session_ex (ascii_lower ''#a'') = None \<and>
   conn (typing ascii_lower (1 * second) (typing ascii_lower 0 session_ex ''#a'') ''#a'') =
     [''@+typing=active TAGMSG #a'' @ [CHR 0x0D, CHR 0x0A]] \<and>
   ''message-tags'' \<in> enabledCaps session_typed \<and> 4 * second - 2 * second < 3 * second \<and>
   typingStamps session_typed (ascii_lower ''#a'') = Some 0 \<and>
   conn (typing ascii_lower (4 * second)
           (typing ascii_lower (2 * second) session_typed ''#a'') ''#a'') =
     conn session_typed @ [''@+typing=active TAGMSG #a'' @ [CHR 0x0D, CHR 0x0A]] \<and>
   ''message-tags'' \<notin> enabledCaps (session_ex\<lparr>enabledCaps := {}\<rparr>) \<and>
   typing ascii_lower 0 (session_ex\<lparr>enabledCaps := {}\<rparr>) ''#a'' = session_ex\<lparr>enabledCaps := {}\<rparr>"
proof -
  have h1: "''message-tags'' \<in> enabledCaps session_ex"
    by (simp add: session_ex_def)
  have h2: "1 * second - 0 < 3 * second"
    by (simp add: second_def)
  have h3: "typingStamps session_ex (ascii_lower ''#a'') = None"
    by (simp add: session_ex_def)
  have c: "conn session_ex = []"
    by (simp add: session_ex_def)
  from C5_typing_rate_limit [of session_ex "1 * second" 0 ascii_lower "''#a''"] h1 h2 h3 c
  have r1: "conn (typing ascii_lower (1 * second) (typing ascii_lower 0 session_ex ''#a'') ''#a'') =
     [''@+typing=active TAGMSG #a'' @ [CHR 0x0D, CHR 0x0A]]"
    by simp
  have k1: "''message-tags'' \<in> enabledCaps session_typed"
    by (simp add: session_typed_def typing_def Let_def session_ex_def)
  have k2: "4 * second - 2 * second < 3 * second"
    by (simp add: second_def)
  have k3: "typingStamps session_typed (ascii_lower ''#a'') = Some 0"
    by (simp add: session_typed_def typing_def Let_def session_ex_def)
  have k4: "\<not> (2 * second - 0 < 3 * second \<and> 4 * second - 0 < 3 * second)"
    by (simp add: second_def)
  from C5_typing_rate_limit [of session_typed "4 * second" "2 * second" ascii_lower "''#a''"]
    k1 k2 k3 k4
  have r2: "conn (typing ascii_lower (4 * second)
           (typing ascii_lower (2 * second) session_typed ''#a'') ''#a'') =
     conn session_typed @ [''@+typing=active TAGMSG #a'' @ [CHR 0x0D, CHR 0x0A]]"
    by simp
  have h4: "''message-tags'' \<notin> enabledCaps (session_ex\<lparr>enabledCaps := {}\<rparr>)"
    by simp
  from C5_typing_rate_limit [of "session_ex\<lparr>enabledCaps := {}\<rparr>" 0 0 ascii_lower "''#a''"] h4
  have r3: "typing ascii_lower 0 (session_ex\<lparr>enabledCaps := {}\<rparr>) ''#a'' = session_ex\<lparr>enabledCaps := {}\<rparr>"
    by simp
  from h1 h2 h3 r1 k1 k2 k3 r2 h4 r3 show ?thesis by simp
qed

section \<open>Properties of the buffer list\<close>

subsection \<open>Looking buffers up\<close>

lemma at_loop_None:
  "at_loop toLower nid lt i xs = None \<longleftrightarrow>
     (\<forall>b \<in> set xs. \<not> (netID b = nid \<and> toLower (title b) = lt))"
  by (induction xs arbitrary: i) auto

lemma at_loop_Some:
  "at_loop toLower nid lt i xs = Some k \<Longrightarrow> i \<le> k \<and> k - i < length xs"
proof (induction xs arbitrary: i)
  case Nil
  then show ?case by simp
next
  case (Cons b xs)
  show ?case
  proof (cases "netID b = nid \<and> toLower (title b) = lt")
    case True
    with Cons.prems show ?thesis by simp
  next
    case False
    with Cons.prems have "at_loop toLower nid lt (i + 1) xs = Some k" by auto
    from Cons.IH [OF this] show ?thesis by auto
  qed
qed

lemma at_ListRef_valid:
  assumes "snd (at toLower bs nid ttl) = Some (ListRef k)"
  shows "k < length (list bs)"
proof -
  from assms have "at_loop toLower nid (toLower ttl) 0 (list bs) = Some k"
    by (auto simp add: at_def split: if_splits option.splits)
  from at_loop_Some [OF this] show ?thesis by simp
qed

lemma at_OverlayRef_valid:
  assumes "snd (at toLower bs nid ttl) = Some OverlayRef"
  shows "overlay bs \<noteq> None"
  using assms by (auto simp add: at_def split: if_splits option.splits)

lemma at_deref:
  assumes "snd (at toLower bs nid ttl) = Some b"
  shows "\<exists>bb. deref bs b = Some bb"
proof (cases b)
  case OverlayRef
  with at_OverlayRef_valid [of toLower bs nid ttl] assms show ?thesis
    by (auto simp add: deref_def)
next
  case (ListRef k)
  with at_ListRef_valid [of toLower bs nid ttl k] assms show ?thesis
    by (simp add: deref_def)
qed

lemma cur_deref:
  assumes "cur bs = Inr c"
  shows "\<exists>cb. deref bs c = Some cb"
  using assms by (auto simp add: cur_def deref_def split: if_splits)

lemma deref_assign:
  assumes "deref bs b = Some bb"
  shows "deref (assign bs b x) b = Some x"
  using assms by (cases b) (auto simp add: deref_def assign_def split: if_splits)

subsection \<open>The blocks of \<^verbatim>\<open>AddLine\<close>\<close>

lemma highlights_add_separator [simp]:
  "highlights (add_separator now notify is_cur b) = highlights b"
  by (simp add: add_separator_def)

lemma merge_or_append_highlights:
  assumes "merge_or_append runeWidth bs is_cur n line b = Inr b'"
  shows "highlights b' = highlights b"
  using assms
  by (auto simp add: merge_or_append_def Let_def split: if_splits sum.splits prod.splits)

lemma merge_or_append_unread:
  assumes "merge_or_append runeWidth bs is_cur n line b = Inr b'"
  shows "unread b' = unread b"
  using assms
  by (auto simp add: merge_or_append_def Let_def split: if_splits sum.splits prod.splits)

lemma bs_mergeLine_panics:
  assumes "bs_mergeLine runeWidth bs former addition = Inl p"
  shows "doMergeLine bs former addition = Inl p"
  using assms by (auto simp add: bs_mergeLine_def split: sum.splits if_splits)

lemma merge_or_append_panics:
  assumes "merge_or_append runeWidth bs False n line b = Inl p"
  shows "Mergeable line \<and> n \<noteq> 0 \<and> Mergeable (lines b ! (n - 1)) \<and>
         doMergeLine bs (lines b ! (n - 1)) line = Inl p"
proof (cases "Mergeable line \<and> n \<noteq> 0 \<and> Mergeable (lines b ! (n - 1))")
  case True
  with assms have "bs_mergeLine runeWidth bs (lines b ! (n - 1)) line = Inl p"
    by (auto simp add: merge_or_append_def Let_def split: sum.splits prod.splits if_splits)
  from bs_mergeLine_panics [OF this] True show ?thesis by simp
next
  case False
  with assms show ?thesis
    by (auto simp add: merge_or_append_def Let_def)
qed

lemma add_separator_last:
  assumes "n = length (lines bb)" and "n \<noteq> 0"
  shows "lines (add_separator now notify is_cur bb) ! (n - 1) = last (lines bb)"
  using assms by (cases "lines bb" rule: rev_cases) (auto simp add: add_separator_def nth_append)

lemma merge_or_append_appends:
  assumes "\<not> (Mergeable line \<and> n \<noteq> 0 \<and> Mergeable (lines b ! (n - 1)))"
  shows "merge_or_append runeWidth bs False n line b =
           Inr (b\<lparr>lines := lines b @ [computeSplitPoints runeWidth line]\<rparr>)"
  using assms by (auto simp add: merge_or_append_def Let_def)

text \<open>\<^verbatim>\<open>AddLine\<close> as the sequence of its blocks, once the two buffers are known.\<close>

lemma AddLine_blocks:
  assumes "snd (at toLower bs nid ttl) = Some b" and "cur bs = Inr c"
    and "deref bs b = Some bb" and "deref bs c = Some cb"
  shows "AddLine toLower ParseURLs runeWidth now bs nid ttl notify line =
           (case merge_or_append runeWidth bs (b = c) (length (lines bb))
                   (if \<not> Mergeable line \<and> openedOnce cb
                    then line\<lparr>Body := ParseURLs (Body line)\<rparr> else line)
                   (add_separator now notify (b = c) bb) of
              Inl p \<Rightarrow> Inl p
            | Inr bb' \<Rightarrow> Inr (assign bs b (count_highlight notify (b = c) bb')))"
  using assms by (simp add: AddLine_def Let_def)

subsection \<open>Claims about \<^verbatim>\<open>AddLine\<close>, \<^verbatim>\<open>AddLines\<close> and the focus\<close>

text \<open>
  Claim C10.  When the pair of \<open>nid\<close> and \<open>ttl\<close> is not the key of the overlay and no
  buffer of the list has the network \<open>nid\<close> and, up to case, the title \<open>ttl\<close>,
  \<^verbatim>\<open>AddLine\<close> and \<^verbatim>\<open>AddLines\<close> return with the buffer list exactly as it was.
\<close>

theorem C10_AddLine_unknown_buffer:
  assumes "\<not> (nid = [] \<and> ttl = Overlay)"
    and "\<forall>b \<in> set (list bs). \<not> (netID b = nid \<and> toLower (title b) = toLower ttl)"
  shows "AddLine toLower ParseURLs runeWidth now bs nid ttl notify line = Inr bs \<and>
         AddLines toLower ParseURLs runeWidth bs nid ttl before after = Inr bs"
proof -
  from assms(2) have "at_loop toLower nid (toLower ttl) 0 (list bs) = None"
    by (simp add: at_loop_None)
  with assms(1) have "snd (at toLower bs nid ttl) = None"
    by (simp add: at_def)
  then show ?thesis
    by (simp add: AddLine_def AddLines_def)
qed

lemma bs1_fields:
  "list bs1 = [buffer_lit ''net'' ''net'' ''#a'']" "current bs1 = 0" "overlay bs1 = None"
  by code_simp+

lemma bs2_fields:
  "list bs2 = [buffer_lit ''net'' ''net'' ''#a'', buffer_lit ''net'' ''net'' ''#b'']"
  "current bs2 = 0" "overlay bs2 = None"
  by code_simp+

lemma doMergeLine_bs2: "doMergeLine bs2 = merge_ex"
  by (simp add: bs2_def bs1_def bs0_def NewBufferList_def Add_def Let_def split: prod.splits)

lemma at_bs2:
  "at ascii_lower bs2 ''net'' ''#a'' = (0, Some (ListRef 0))"
  "at ascii_lower bs2 ''net'' ''#b'' = (1, Some (ListRef 1))"
  "at ascii_lower bs2 ''net'' ''#zz'' = (- 1, None)"
  by code_simp+

theorem C10_AddLine_unknown_buffer_witness:
  "list bs2 = [buffer_lit ''net'' ''net'' ''#a'', buffer_lit ''net'' ''net'' ''#b''] \<and>
   AddLine ascii_lower (\<lambda>s. s) width_one 0 bs2 ''net'' ''#zz'' NotifyHighlight
     (line_ex 1 ''hi'') = Inr bs2 \<and>
   AddLines ascii_lower (\<lambda>s. s) width_one bs2 ''net'' ''#zz'' [line_ex 1 ''x''] [] = Inr bs2"
proof -
  have h1: "\<not> (''net'' = [] \<and> ''#zz'' = Overlay)"
    by simp
  have h2: "\<forall>b \<in> set (list bs2).
              \<not> (netID b = ''net'' \<and> ascii_lower (title b) = ascii_lower ''#zz'')"
    by code_simp
  from C10_AddLine_unknown_buffer [OF h1 h2] show ?thesis
    by (simp add: bs2_fields)
qed

subsection \<open>The highlight counter\<close>

lemma go_rem_nonneg:
  assumes "0 \<le> a" and "0 < b"
  shows "go_rem a b = a mod b" and "0 \<le> go_rem a b" and "go_rem a b < b"
proof -
  show e: "go_rem a b = a mod b"
  proof (cases "a = 0")
    case True
    then show ?thesis by (simp add: go_rem_def)
  next
    case False
    with assms have "sgn a = 1" by simp
    with assms show ?thesis by (simp add: go_rem_def)
  qed
  from assms show "0 \<le> go_rem a b" "go_rem a b < b"
    by (simp_all add: e)
qed

lemma AddLine_highlight:
  assumes at: "snd (at toLower bs nid ttl) = Some b"
    and cu: "cur bs = Inr c"
    and ne: "b \<noteq> c"
  shows "case AddLine toLower ParseURLs runeWidth now bs nid ttl NotifyHighlight line of
           Inr bs' \<Rightarrow>
             (\<exists>bb bb'. deref bs b = Some bb \<and> bs' = assign bs b bb' \<and>
                deref bs' b = Some bb' \<and> highlights bb' = highlights bb + 1)
         | Inl p \<Rightarrow>
             (\<exists>bb. deref bs b = Some bb \<and> Mergeable line \<and> lines bb \<noteq> [] \<and>
                Mergeable (last (lines bb)) \<and> doMergeLine bs (last (lines bb)) line = Inl p)"
proof -
  from at_deref [OF at] obtain bb where bb: "deref bs b = Some bb" by blast
  from cur_deref [OF cu] obtain cb where cbf: "deref bs c = Some cb" by blast
  define line' where "line' = (if \<not> Mergeable line \<and> openedOnce cb
               then line\<lparr>Body := ParseURLs (Body line)\<rparr> else line)"
  define b1 where "b1 = add_separator now NotifyHighlight False bb"
  from ne have bc: "(b = c) = False" by simp
  have blocks: "AddLine toLower ParseURLs runeWidth now bs nid ttl NotifyHighlight line =
     (case merge_or_append runeWidth bs False (length (lines bb)) line' b1 of
        Inl p \<Rightarrow> Inl p
      | Inr bb' \<Rightarrow> Inr (assign bs b (count_highlight NotifyHighlight False bb')))"
    unfolding line'_def b1_def by (simp only: AddLine_blocks [OF at cu bb cbf] bc)
  show ?thesis
  proof (cases "merge_or_append runeWidth bs False (length (lines bb)) line' b1")
    case (Inl p)
    from merge_or_append_panics [OF Inl]
    have m: "Mergeable line'" "length (lines bb) \<noteq> 0"
      "Mergeable (lines b1 ! (length (lines bb) - 1))"
      "doMergeLine bs (lines b1 ! (length (lines bb) - 1)) line' = Inl p"
      by simp_all
    from m(1) have l: "line' = line"
      by (auto simp add: line'_def split: if_splits)
    from m(2) have la: "lines b1 ! (length (lines bb) - 1) = last (lines bb)"
      unfolding b1_def by (intro add_separator_last) simp_all
    from blocks Inl bb m l la show ?thesis
      by auto
  next
    case (Inr b2)
    from merge_or_append_highlights [OF Inr] have h: "highlights b2 = highlights bb"
      by (simp add: b1_def)
    have "highlights (count_highlight NotifyHighlight False b2) = highlights bb + 1"
      by (simp add: count_highlight_def h)
    with blocks Inr bb deref_assign [OF bb] show ?thesis
      by auto
  qed
qed

lemma To_focus:
  assumes "0 \<le> i" and "i \<noteq> current bs" and "list bs \<noteq> []"
  shows "\<exists>bs' k. To bs i = Inr (True, bs') \<and> cur bs' = Inr (ListRef k) \<and>
           int k = min i (int (length (list bs)) - 1) \<and>
           map_option highlights (deref bs' (ListRef k)) = Some 0 \<and>
           map_option unread (deref bs' (ListRef k)) = Some False"
proof -
  from assms(3) have len: "0 < length (list bs)" by simp
  define k where "k = nat (min i (int (length (list bs)) - 1))"
  from assms(1) len have k1: "k < length (list bs)"
    unfolding k_def by arith
  from assms(1) len have k2: "int k = min i (int (length (list bs)) - 1)"
    unfolding k_def by arith
  define bs' where "bs' = bs\<lparr>overlay := None, current := int k,
                              list := (list bs)[k := reset_notify (list bs ! k)]\<rparr>"
  have "To bs i = Inr (True, bs')"
  proof (cases "int (length (list bs)) \<le> i")
    case True
    with k2 have "nat (int (length (list bs)) - 1) = k" by arith
    with True assms k1 show ?thesis
      by (simp add: To_def Let_def bs'_def)
  next
    case False
    with k2 have "nat i = k" by arith
    with False assms k1 show ?thesis
      by (auto simp add: To_def Let_def bs'_def)
  qed
  moreover from k1 have "cur bs' = Inr (ListRef k)"
    by (simp add: cur_def bs'_def)
  moreover from k1 have "deref bs' (ListRef k) = Some (reset_notify (list bs ! k))"
    by (simp add: deref_def bs'_def)
  ultimately show ?thesis using k2
    by (simp add: reset_notify_def)
qed

lemma focus_step:
  assumes "list bs \<noteq> []" and "0 \<le> j"
  shows "\<exists>bs' k.
           (case cur (bs\<lparr>overlay := None, current := go_rem j (int (length (list bs)))\<rparr>) of
              Inl p \<Rightarrow> Inl p
            | Inr b \<Rightarrow>
                (case deref (bs\<lparr>overlay := None,
                                current := go_rem j (int (length (list bs)))\<rparr>) b of
                   None \<Rightarrow> Inl Panic
                 | Some bb \<Rightarrow>
                     Inr (assign (bs\<lparr>overlay := None,
                                     current := go_rem j (int (length (list bs)))\<rparr>) b
                            (reset_notify bb)))) = Inr bs' \<and>
           cur bs' = Inr (ListRef k) \<and> int k = j mod int (length (list bs)) \<and>
           map_option highlights (deref bs' (ListRef k)) = Some 0 \<and>
           map_option unread (deref bs' (ListRef k)) = Some False"
proof -
  from assms(1) have len: "0 < int (length (list bs))" by simp
  define c where "c = go_rem j (int (length (list bs)))"
  define k where "k = nat c"
  from go_rem_nonneg [OF assms(2) len]
  have c: "c = j mod int (length (list bs))" "0 \<le> c" "c < int (length (list bs))"
    by (simp_all add: c_def)
  then have k: "k < length (list bs)" "int k = c"
    by (simp_all add: k_def)
  define bs0 where "bs0 = bs\<lparr>overlay := None, current := c\<rparr>"
  from c(2,3) have cu: "cur bs0 = Inr (ListRef k)"
    by (simp add: cur_def bs0_def k_def)
  from k have de: "deref bs0 (ListRef k) = Some (list bs ! k)"
    by (simp add: deref_def bs0_def)
  define bs' where "bs' = assign bs0 (ListRef k) (reset_notify (list bs ! k))"
  from c(2,3) have "cur bs' = Inr (ListRef k)"
    by (simp add: cur_def assign_def bs'_def bs0_def k_def)
  moreover from k have "deref bs' (ListRef k) = Some (reset_notify (list bs ! k))"
    by (simp add: deref_def assign_def bs'_def bs0_def)
  moreover from cu de
  have "(case cur bs0 of
           Inl p \<Rightarrow> Inl p
         | Inr b \<Rightarrow>
             (case deref bs0 b of
                None \<Rightarrow> Inl Panic
              | Some bb \<Rightarrow> Inr (assign bs0 b (reset_notify bb)))) = Inr bs'"
    by (simp add: bs'_def)
  ultimately show ?thesis using k(2) c(1)
    unfolding bs0_def c_def by (auto simp add: reset_notify_def)
qed

lemma Next_focus:
  assumes "list bs \<noteq> []" and "0 \<le> current bs"
  shows "\<exists>bs' k. Next bs = Inr bs' \<and> cur bs' = Inr (ListRef k) \<and>
           int k = (current bs + 1) mod int (length (list bs)) \<and>
           map_option highlights (deref bs' (ListRef k)) = Some 0 \<and>
           map_option unread (deref bs' (ListRef k)) = Some False"
proof -
  from assms(2) have "0 \<le> current bs + 1" by simp
  from focus_step [OF assms(1) this] assms(1) show ?thesis
    by (simp add: Next_def Let_def)
qed

lemma Previous_focus:
  assumes "list bs \<noteq> []" and "0 \<le> current bs"
  shows "\<exists>bs' k. Previous bs = Inr bs' \<and> cur bs' = Inr (ListRef k) \<and>
           int k = (current bs - 1 + int (length (list bs))) mod int (length (list bs)) \<and>
           map_option highlights (deref bs' (ListRef k)) = Some 0 \<and>
           map_option unread (deref bs' (ListRef k)) = Some False"
proof -
  from assms have "0 \<le> current bs - 1 + int (length (list bs))"
    by (cases "list bs") simp_all
  from focus_step [OF assms(1) this] assms(1) show ?thesis
    by (simp add: Previous_def Let_def)
qed

text \<open>
  Claim C6, as stated, at a concrete input.  The buffer \<open>#a\<close> is the only buffer and
  has the focus; a search overlay is opened; a highlight for \<open>#a\<close> arrives and is
  counted, the overlay being the current buffer; \<^verbatim>\<open>To(0)\<close> then closes the overlay and
  returns at once, 0 being the current index already.  The buffer \<open>#a\<close> is focused
  again, with a highlight count of 1 and the unread flag set.
\<close>

theorem C6_To_current_counterexample:
  "AddLine ascii_lower ParseURLs_ex width_one 0 bs_ov ''net'' ''#a'' NotifyHighlight
     (line_ex 1 ''hi'') = Inr bs_hl \<and>
   To bs_hl 0 = Inr (False, bs_hl\<lparr>overlay := None\<rparr>) \<and>
   cur (bs_hl\<lparr>overlay := None\<rparr>) = Inr (ListRef 0) \<and>
   map highlights (list (bs_hl\<lparr>overlay := None\<rparr>)) = [1] \<and>
   map unread (list (bs_hl\<lparr>overlay := None\<rparr>)) = [True]"
proof -
  have l: "list bs_ov = [buffer_lit ''net'' ''net'' ''#a'']" "current bs_ov = 0"
    "overlay bs_ov = Some (buffer_lit [] [] Overlay)"
    by (simp_all add: bs_ov_def OpenOverlay_def bs1_fields)
  have a: "at ascii_lower bs_ov ''net'' ''#a'' = (0, Some (ListRef 0))"
    by (simp add: at_def l buffer_lit_def)
  have c: "cur bs_ov = Inr OverlayRef"
    by (simp add: cur_def l)
  have "AddLine ascii_lower ParseURLs_ex width_one 0 bs_ov ''net'' ''#a'' NotifyHighlight
     (line_ex 1 ''hi'') = Inr bs_hl"
    by (simp add: AddLine_def a c deref_def l Let_def add_separator_def merge_or_append_def
        count_highlight_def bs_hl_def buf_hl_def buffer_lit_def line_ex_def LineLit_def)
  moreover have "To bs_hl 0 = Inr (False, bs_hl\<lparr>overlay := None\<rparr>)"
    by (simp add: To_def Let_def bs_hl_def assign_def l)
  moreover have "cur (bs_hl\<lparr>overlay := None\<rparr>) = Inr (ListRef 0)"
    by (simp add: cur_def bs_hl_def assign_def l)
  moreover have "map highlights (list (bs_hl\<lparr>overlay := None\<rparr>)) = [1]"
    "map unread (list (bs_hl\<lparr>overlay := None\<rparr>)) = [True]"
    by (simp_all add: bs_hl_def assign_def l buf_hl_def)
  ultimately show ?thesis by simp
qed

text \<open>
  Claim C6, amended.  For every buffer \<open>B\<close> that is not the current buffer,
  \<^verbatim>\<open>AddLine\<close> with the notify type Highlight increments the highlight count of \<open>B\<close> by
  exactly one and changes no other buffer (it returns, unless the merge callback panics
  while the line is merged).  For every \<open>i\<close> that is not negative and differs from the
  current index, \<^verbatim>\<open>To(i)\<close> on a list that is not empty focuses the buffer at the index
  \<open>i\<close>, or the last one when \<open>i\<close> is too large, and sets its highlight count to zero and
  its unread flag to false; \<^verbatim>\<open>Next\<close> and \<^verbatim>\<open>Previous\<close>, on a list that is not empty with a
  current index that is not negative, do the same for the buffer that they focus.
\<close>

theorem C6_highlight_counter:
  "(snd (at toLower bs nid ttl) = Some b \<and> cur bs = Inr c \<and> b \<noteq> c \<longrightarrow>
      (case AddLine toLower ParseURLs runeWidth now bs nid ttl NotifyHighlight line of
         Inr bs' \<Rightarrow>
           (\<exists>bb bb'. deref bs b = Some bb \<and> bs' = assign bs b bb' \<and>
              deref bs' b = Some bb' \<and> highlights bb' = highlights bb + 1)
       | Inl p \<Rightarrow>
           (\<exists>bb. deref bs b = Some bb \<and> Mergeable line \<and> lines bb \<noteq> [] \<and>
              Mergeable (last (lines bb)) \<and>
              doMergeLine bs (last (lines bb)) line = Inl p))) \<and>
   (0 \<le> i \<and> i \<noteq> current bs \<and> list bs \<noteq> [] \<longrightarrow>
      (\<exists>bs' k. To bs i = Inr (True, bs') \<and> cur bs' = Inr (ListRef k) \<and>
         int k = min i (int (length (list bs)) - 1) \<and>
         map_option highlights (deref bs' (ListRef k)) = Some 0 \<and>
         map_option unread (deref bs' (ListRef k)) = Some False)) \<and>
   (list bs \<noteq> [] \<and> 0 \<le> current bs \<longrightarrow>
      (\<exists>bs' k. Next bs = Inr bs' \<and> cur bs' = Inr (ListRef k) \<and>
         int k = (current bs + 1) mod int (length (list bs)) \<and>
         map_option highlights (deref bs' (ListRef k)) = Some 0 \<and>
         map_option unread (deref bs' (ListRef k)) = Some False) \<and>
      (\<exists>bs' k. Previous bs = Inr bs' \<and> cur bs' = Inr (ListRef k) \<and>
         int k = (current bs - 1 + int (length (list bs))) mod int (length (list bs)) \<and>
         map_option highlights (deref bs' (ListRef k)) = Some 0 \<and>
         map_option unread (deref bs' (ListRef k)) = Some False))"
proof (intro conjI impI)
  assume "snd (at toLower bs nid ttl) = Some b \<and> cur bs = Inr c \<and> b \<noteq> c"
  then have "snd (at toLower bs nid ttl) = Some b" "cur bs = Inr c" "b \<noteq> c"
    by simp_all
  then show "case AddLine toLower ParseURLs runeWidth now bs nid ttl NotifyHighlight line of
         Inr bs' \<Rightarrow>
           (\<exists>bb bb'. deref bs b = Some bb \<and> bs' = assign bs b bb' \<and>
              deref bs' b = Some bb' \<and> highlights bb' = highlights bb + 1)
       | Inl p \<Rightarrow>
           (\<exists>bb. deref bs b = Some bb \<and> Mergeable line \<and> lines bb \<noteq> [] \<and>
              Mergeable (last (lines bb)) \<and>
              doMergeLine bs (last (lines bb)) line = Inl p)"
    by (rule AddLine_highlight)
next
  assume "0 \<le> i \<and> i \<noteq> current bs \<and> list bs \<noteq> []"
  then have "0 \<le> i" "i \<noteq> current bs" "list bs \<noteq> []"
    by simp_all
  then show "\<exists>bs' k. To bs i = Inr (True, bs') \<and> cur bs' = Inr (ListRef k) \<and>
         int k = min i (int (length (list bs)) - 1) \<and>
         map_option highlights (deref bs' (ListRef k)) = Some 0 \<and>
         map_option unread (deref bs' (ListRef k)) = Some False"
    by (rule To_focus)
next
  assume "list bs \<noteq> [] \<and> 0 \<le> current bs"
  then have "list bs \<noteq> []" "0 \<le> current bs"
    by simp_all
  then show "\<exists>bs' k. Next bs = Inr bs' \<and> cur bs' = Inr (ListRef k) \<and>
         int k = (current bs + 1) mod int (length (list bs)) \<and>
         map_option highlights (deref bs' (ListRef k)) = Some 0 \<and>
         map_option unread (deref bs' (ListRef k)) = Some False"
    by (rule Next_focus)
next
  assume "list bs \<noteq> [] \<and> 0 \<le> current bs"
  then have "list bs \<noteq> []" "0 \<le> current bs"
    by simp_all
  then show "\<exists>bs' k. Previous bs = Inr bs' \<and> cur bs' = Inr (ListRef k) \<and>
         int k = (current bs - 1 + int (length (list bs))) mod int (length (list bs)) \<and>
         map_option highlights (deref bs' (ListRef k)) = Some 0 \<and>
         map_option unread (deref bs' (ListRef k)) = Some False"
    by (rule Previous_focus)
qed

theorem C6_highlight_counter_witness:
  "(\<exists>bs'. AddLine ascii_lower ParseURLs_ex width_one 0 bs2 ''net'' ''#b'' NotifyHighlight
            (line_ex 1 ''hi'') = Inr bs' \<and>
          map_option highlights (deref bs2 (ListRef 1)) = Some 0 \<and>
          map_option highlights (deref bs' (ListRef 1)) = Some 1) \<and>
   (\<exists>bs'. To bs2 1 = Inr (True, bs') \<and> cur bs' = Inr (ListRef 1) \<and>
          map_option highlights (deref bs' (ListRef 1)) = Some 0 \<and>
          map_option unread (deref bs' (ListRef 1)) = Some False) \<and>
   (\<exists>bs'. Next bs2 = Inr bs' \<and> cur bs' = Inr (ListRef 1) \<and>
          map_option highlights (deref bs' (ListRef 1)) = Some 0 \<and>
          map_option unread (deref bs' (ListRef 1)) = Some False) \<and>
   (\<exists>bs'. Previous bs2 = Inr bs' \<and> cur bs' = Inr (ListRef 1) \<and>
          map_option highlights (deref bs' (ListRef 1)) = Some 0 \<and>
          map_option unread (deref bs' (ListRef 1)) = Some False)"
proof -
  note inst = C6_highlight_counter [where bs = bs2 and toLower = ascii_lower
      and nid = "''net''" and ttl = "''#b''" and b = "ListRef 1" and c = "ListRef 0"
      and i = 1 and ParseURLs = ParseURLs_ex and runeWidth = width_one and now = 0
      and line = "line_ex 1 ''hi''"]
  have h1: "snd (at ascii_lower bs2 ''net'' ''#b'') = Some (ListRef 1) \<and>
            cur bs2 = Inr (ListRef 0) \<and> ListRef 1 \<noteq> ListRef 0"
    by (simp add: at_bs2 cur_def bs2_fields)
  have h2: "0 \<le> (1 :: int) \<and> 1 \<noteq> current bs2 \<and> list bs2 \<noteq> []"
    by (simp add: bs2_fields)
  have h3: "list bs2 \<noteq> [] \<and> 0 \<le> current bs2"
    by (simp add: bs2_fields)
  have m: "\<not> Mergeable (line_ex 1 ''hi'')"
    by (simp add: line_ex_def LineLit_def)
  have d: "deref bs2 (ListRef 1) = Some (buffer_lit ''net'' ''net'' ''#b'')"
    by (simp add: deref_def bs2_fields)
  have len: "int (length (list bs2)) = 2" "current bs2 = 0"
    by (simp_all add: bs2_fields)
  from inst h1 m d have a: "\<exists>bs'. AddLine ascii_lower ParseURLs_ex width_one 0 bs2 ''net'' ''#b''
            NotifyHighlight (line_ex 1 ''hi'') = Inr bs' \<and>
          map_option highlights (deref bs2 (ListRef 1)) = Some 0 \<and>
          map_option highlights (deref bs' (ListRef 1)) = Some 1"
    by (cases "AddLine ascii_lower ParseURLs_ex width_one 0 bs2 ''net'' ''#b''
            NotifyHighlight (line_ex 1 ''hi'')") (auto simp add: buffer_lit_def)
  from inst h2 len have t: "\<exists>bs'. To bs2 1 = Inr (True, bs') \<and> cur bs' = Inr (ListRef 1) \<and>
          map_option highlights (deref bs' (ListRef 1)) = Some 0 \<and>
          map_option unread (deref bs' (ListRef 1)) = Some False"
    by auto
  from inst h3 len have n: "\<exists>bs'. Next bs2 = Inr bs' \<and> cur bs' = Inr (ListRef 1) \<and>
          map_option highlights (deref bs' (ListRef 1)) = Some 0 \<and>
          map_option unread (deref bs' (ListRef 1)) = Some False"
    by auto
  from inst h3 len have p: "\<exists>bs'. Previous bs2 = Inr bs' \<and> cur bs' = Inr (ListRef 1) \<and>
          map_option highlights (deref bs' (ListRef 1)) = Some 0 \<and>
          map_option unread (deref bs' (ListRef 1)) = Some False"
    by auto
  from a t n p show ?thesis by blast
qed

subsection \<open>The separator\<close>

lemma merge_or_append_appended:
  assumes "\<not> (Mergeable line \<and> n \<noteq> 0 \<and> Mergeable (lines b ! (n - 1)))"
    and "merge_or_append runeWidth bs is_cur n line b = Inr b'"
  shows "lines b' = lines b @ [computeSplitPoints runeWidth line] \<and> unread b' = unread b"
  using assms
  by (auto simp add: merge_or_append_def Let_def split: if_splits sum.splits prod.splits)

text \<open>The separator: its instant, its body and its style, every other field being zero.\<close>

lemma separator_line:
  "separator now =
     \<lparr>At = now, Head = [], Body = \<lparr>string = ''---'', styles = [(0, Foreground ColorRed)]\<rparr>,
      HeadColor = ColorDefault, Highlight = False, Readable = False, Mergeable = False,
      Data = None, splitPoints = [], width = 0, newLines = []\<rparr>"
  by (simp add: separator_def LineLit_def Styled_def)

text \<open>
  Let \<^verbatim>\<open>AddLine\<close> find the target buffer \<open>b\<close> and the current buffer \<open>c\<close>, and let \<open>L\<close>
  be the line after the optional parsing of its URLs.

  When the notify type is not None, \<open>b\<close> is not the current buffer and \<open>b\<close> is not
  unread, the rest of \<^verbatim>\<open>AddLine\<close> (merging or appending, then counting the highlight)
  runs on the buffer to which the separator has been appended and whose unread flag has
  been set; if the line is appended, the buffer ends with the separator followed by the
  line, and is unread.

  Otherwise the rest of \<^verbatim>\<open>AddLine\<close> runs on the buffer as it was; if the line is
  appended, the buffer ends with the line alone, and the unread flag is as before.
\<close>

lemma AddLine_separator:
  assumes at: "snd (at toLower bs nid ttl) = Some b"
    and cu: "cur bs = Inr c"
    and bb: "deref bs b = Some bb"
    and cb: "deref bs c = Some cb"
    and L: "L = (if \<not> Mergeable line \<and> openedOnce cb
                 then line\<lparr>Body := ParseURLs (Body line)\<rparr> else line)"
  shows
  "(notify \<noteq> NotifyNone \<and> b \<noteq> c \<and> \<not> unread bb \<longrightarrow>
      AddLine toLower ParseURLs runeWidth now bs nid ttl notify line =
        (case merge_or_append runeWidth bs False (length (lines bb)) L
                (bb\<lparr>lines := lines bb @ [separator now], unread := True\<rparr>) of
           Inl p \<Rightarrow> Inl p
         | Inr bb' \<Rightarrow> Inr (assign bs b (count_highlight notify False bb'))) \<and>
      (\<not> (Mergeable line \<and> lines bb \<noteq> [] \<and> Mergeable (last (lines bb))) \<longrightarrow>
         AddLine toLower ParseURLs runeWidth now bs nid ttl notify line =
           Inr (assign bs b (count_highlight notify False
                  (bb\<lparr>lines := lines bb @ [separator now, computeSplitPoints runeWidth L],
                      unread := True\<rparr>))))) \<and>
   (\<not> (notify \<noteq> NotifyNone \<and> b \<noteq> c \<and> \<not> unread bb) \<longrightarrow>
      AddLine toLower ParseURLs runeWidth now bs nid ttl notify line =
        (case merge_or_append runeWidth bs (b = c) (length (lines bb)) L bb of
           Inl p \<Rightarrow> Inl p
         | Inr bb' \<Rightarrow> Inr (assign bs b (count_highlight notify (b = c) bb'))) \<and>
      (\<forall>bs'. AddLine toLower ParseURLs runeWidth now bs nid ttl notify line = Inr bs' \<and>
             \<not> (Mergeable line \<and> lines bb \<noteq> [] \<and> Mergeable (last (lines bb))) \<longrightarrow>
         (\<exists>bb'. deref bs' b = Some bb' \<and>
            lines bb' = lines bb @ [computeSplitPoints runeWidth L] \<and>
            unread bb' = unread bb)))"
proof (intro conjI impI allI)
  note blocks = AddLine_blocks [OF at cu bb cb, of ParseURLs runeWidth now notify line,
      folded L]
  have mL: "Mergeable L = Mergeable line"
    by (simp add: L)
  {
    assume sep: "notify \<noteq> NotifyNone \<and> b \<noteq> c \<and> \<not> unread bb"
    then have bc: "(b = c) = False" by simp
    from sep have s: "add_separator now notify False bb =
        bb\<lparr>lines := lines bb @ [separator now], unread := True\<rparr>"
      by (simp add: add_separator_def)
    show g1: "AddLine toLower ParseURLs runeWidth now bs nid ttl notify line =
        (case merge_or_append runeWidth bs False (length (lines bb)) L
                (bb\<lparr>lines := lines bb @ [separator now], unread := True\<rparr>) of
           Inl p \<Rightarrow> Inl p
         | Inr bb' \<Rightarrow> Inr (assign bs b (count_highlight notify False bb')))"
      by (simp only: blocks bc s)
    assume app: "\<not> (Mergeable line \<and> lines bb \<noteq> [] \<and> Mergeable (last (lines bb)))"
    have "\<not> (Mergeable L \<and> length (lines bb) \<noteq> 0 \<and>
             Mergeable (lines (bb\<lparr>lines := lines bb @ [separator now], unread := True\<rparr>) !
                          (length (lines bb) - 1)))"
    proof (cases "lines bb" rule: rev_cases)
      case Nil
      then show ?thesis by simp
    next
      case (snoc ys y)
      with app mL show ?thesis by (simp add: nth_append)
    qed
    from merge_or_append_appends [OF this]
    have "merge_or_append runeWidth bs False (length (lines bb)) L
            (bb\<lparr>lines := lines bb @ [separator now], unread := True\<rparr>) =
          Inr (bb\<lparr>lines := lines bb @ [separator now, computeSplitPoints runeWidth L],
                 unread := True\<rparr>)"
      by (cases bb) simp
    then show "AddLine toLower ParseURLs runeWidth now bs nid ttl notify line =
           Inr (assign bs b (count_highlight notify False
                  (bb\<lparr>lines := lines bb @ [separator now, computeSplitPoints runeWidth L],
                      unread := True\<rparr>)))"
      by (simp only: g1 sum.case)
  }
  {
    assume nosep: "\<not> (notify \<noteq> NotifyNone \<and> b \<noteq> c \<and> \<not> unread bb)"
    then have s: "add_separator now notify (b = c) bb = bb"
      by (auto simp add: add_separator_def)
    show g2: "AddLine toLower ParseURLs runeWidth now bs nid ttl notify line =
        (case merge_or_append runeWidth bs (b = c) (length (lines bb)) L bb of
           Inl p \<Rightarrow> Inl p
         | Inr bb' \<Rightarrow> Inr (assign bs b (count_highlight notify (b = c) bb')))"
      by (simp only: blocks s)
    fix bs'
    assume r: "AddLine toLower ParseURLs runeWidth now bs nid ttl notify line = Inr bs' \<and>
             \<not> (Mergeable line \<and> lines bb \<noteq> [] \<and> Mergeable (last (lines bb)))"
    from r g2 obtain b2
      where m: "merge_or_append runeWidth bs (b = c) (length (lines bb)) L bb = Inr b2"
        and bs': "bs' = assign bs b (count_highlight notify (b = c) b2)"
      by (auto split: sum.splits)
    have "\<not> (Mergeable L \<and> length (lines bb) \<noteq> 0 \<and>
             Mergeable (lines bb ! (length (lines bb) - 1)))"
    proof (cases "lines bb" rule: rev_cases)
      case Nil
      then show ?thesis by simp
    next
      case (snoc ys y)
      with r mL show ?thesis by (simp add: nth_append)
    qed
    from merge_or_append_appended [OF this m]
    have "lines b2 = lines bb @ [computeSplitPoints runeWidth L]" "unread b2 = unread bb"
      by simp_all
    then have "lines (count_highlight notify (b = c) b2) =
                 lines bb @ [computeSplitPoints runeWidth L]"
      "unread (count_highlight notify (b = c) b2) = unread bb"
      by (simp_all add: count_highlight_def)
    with deref_assign [OF bb] bs'
    show "\<exists>bb'. deref bs' b = Some bb' \<and>
            lines bb' = lines bb @ [computeSplitPoints runeWidth L] \<and>
            unread bb' = unread bb"
      by blast
  }
qed

text \<open>
  When the line is merged into the last line of the buffer, the second block works at
  the index \<open>n - 1\<close> taken before the first block: the separator stays behind the merged
  line, and it is cut off with the merged line when the merge leaves an empty body.
\<close>

lemma AddLine_separator_merge:
  assumes at: "snd (at toLower bs nid ttl) = Some b"
    and cu: "cur bs = Inr c"
    and bb: "deref bs b = Some bb"
    and sep: "notify \<noteq> NotifyNone" "b \<noteq> c" "\<not> unread bb"
    and mrg: "Mergeable line" "lines bb \<noteq> []" "Mergeable (last (lines bb))"
    and ml: "bs_mergeLine runeWidth bs (last (lines bb)) line = Inr (keepLine, l)"
  shows "AddLine toLower ParseURLs runeWidth now bs nid ttl notify line =
           Inr (assign bs b (count_highlight notify False
                  (bb\<lparr>lines := (if keepLine then butlast (lines bb) @ [l, separator now]
                                  else butlast (lines bb)),
                      unread := True\<rparr>)))"
proof -
  from cur_deref [OF cu] obtain cb where cb: "deref bs c = Some cb" by blast
  from mrg(2) obtain ys y where ys: "lines bb = ys @ [y]"
    by (cases "lines bb" rule: rev_cases) auto
  from mrg(1) have L: "line = (if \<not> Mergeable line \<and> openedOnce cb
                 then line\<lparr>Body := ParseURLs (Body line)\<rparr> else line)"
    by simp
  from AddLine_separator [where ParseURLs = ParseURLs and line = line,
      OF at cu bb cb L, of notify runeWidth now] sep
  have "AddLine toLower ParseURLs runeWidth now bs nid ttl notify line =
        (case merge_or_append runeWidth bs False (length (lines bb)) line
                (bb\<lparr>lines := lines bb @ [separator now], unread := True\<rparr>) of
           Inl p \<Rightarrow> Inl p
         | Inr bb' \<Rightarrow> Inr (assign bs b (count_highlight notify False bb')))"
    by simp
  moreover from mrg ml ys
  have "merge_or_append runeWidth bs False (length (lines bb)) line
          (bb\<lparr>lines := lines bb @ [separator now], unread := True\<rparr>) =
        Inr (bb\<lparr>lines := (if keepLine then butlast (lines bb) @ [l, separator now]
                            else butlast (lines bb)),
                unread := True\<rparr>)"
    by (cases bb) (simp add: merge_or_append_def Let_def nth_append list_update_append)
  ultimately show ?thesis by simp
qed

text \<open>
  Without a separator, a line that is merged replaces the last line of the buffer, or
  removes it when the merge leaves an empty body.
\<close>

lemma AddLine_merge:
  assumes at: "snd (at toLower bs nid ttl) = Some b"
    and cu: "cur bs = Inr c"
    and bb: "deref bs b = Some bb"
    and nosep: "\<not> (notify \<noteq> NotifyNone \<and> b \<noteq> c \<and> \<not> unread bb)"
    and mrg: "Mergeable line" "lines bb \<noteq> []" "Mergeable (last (lines bb))"
    and ml: "bs_mergeLine runeWidth bs (last (lines bb)) line = Inr (keepLine, l)"
  shows "AddLine toLower ParseURLs runeWidth now bs nid ttl notify line =
           Inr (assign bs b (count_highlight notify (b = c)
                  (bb\<lparr>lines := (if keepLine then butlast (lines bb) @ [l]
                                  else butlast (lines bb))\<rparr>)))"
proof -
  from cur_deref [OF cu] obtain cb where cb: "deref bs c = Some cb" by blast
  from mrg(2) obtain ys y where ys: "lines bb = ys @ [y]"
    by (cases "lines bb" rule: rev_cases) auto
  from mrg(1) have L: "line = (if \<not> Mergeable line \<and> openedOnce cb
                 then line\<lparr>Body := ParseURLs (Body line)\<rparr> else line)"
    by simp
  from AddLine_separator [where ParseURLs = ParseURLs and line = line,
      OF at cu bb cb L, of notify runeWidth now] nosep
  have "AddLine toLower ParseURLs runeWidth now bs nid ttl notify line =
        (case merge_or_append runeWidth bs (b = c) (length (lines bb)) line bb of
           Inl p \<Rightarrow> Inl p
         | Inr bb' \<Rightarrow> Inr (assign bs b (count_highlight notify (b = c) bb')))"
    by blast
  moreover from mrg ml ys
  have "merge_or_append runeWidth bs (b = c) (length (lines bb)) line bb =
        Inr (bb\<lparr>lines := (if keepLine then butlast (lines bb) @ [l]
                            else butlast (lines bb))\<rparr>)"
    by (cases bb) (simp add: merge_or_append_def Let_def)
  ultimately show ?thesis by simp
qed


section \<open>Properties of the wrap cache\<close>

lemma wrap_cache_independent [simp]:
  "wrap runeWidth (l\<lparr>width := a, newLines := b\<rparr>) w = wrap runeWidth l w"
  by (simp add: wrap_def split: sum.splits)

lemma NewLines_sets_width:
  assumes "NewLines runeWidth l w = Inr (r, l')"
  shows "width l' = w \<and> newLines l' = r \<and> Body l' = Body l \<and> splitPoints l' = splitPoints l"
  using assms by (auto simp add: NewLines_def split: if_splits sum.splits)

lemma NewLines_result:
  assumes "NewLines runeWidth l w = Inr (r, l')"
  shows "l' = l\<lparr>width := w, newLines := r\<rparr>"
  using assms by (auto simp add: NewLines_def split: if_splits sum.splits)

text \<open>
  Claim C8.  When \<^verbatim>\<open>NewLines(W)\<close> has returned the indices \<open>r\<close>, a second call with the
  same width returns \<open>r\<close> again and leaves the line as it is: the answer is the cached
  vector.  A call with another width \<open>W'\<close> does not answer from the cache: it runs the
  wrap computation for \<open>W'\<close> on the body and the split points, stores its result with
  the width \<open>W'\<close>, and, \<open>W'\<close> not being 0, returns what the same call returns on a
  copy of the line that was never wrapped.
\<close>

theorem C8_NewLines_cache:
  "(NewLines runeWidth l w = Inr (r, l') \<longrightarrow> NewLines runeWidth l' w = Inr (r, l')) \<and>
   (NewLines runeWidth l w = Inr (r, l') \<and> w' \<noteq> w \<longrightarrow>
      NewLines runeWidth l' w' =
        (case wrap runeWidth l w' of
           Inl p \<Rightarrow> Inl p
         | Inr nls \<Rightarrow> Inr (nls, l\<lparr>width := w', newLines := nls\<rparr>))) \<and>
   (NewLines runeWidth l w = Inr (r, l') \<and> w' \<noteq> w \<and> w' \<noteq> 0 \<longrightarrow>
      map_sum id fst (NewLines runeWidth l' w') =
        map_sum id fst (NewLines runeWidth (l\<lparr>width := 0, newLines := []\<rparr>) w'))"
proof (intro conjI impI)
  assume a: "NewLines runeWidth l w = Inr (r, l')"
  from NewLines_sets_width [OF a] show "NewLines runeWidth l' w = Inr (r, l')"
    by (simp add: NewLines_def)
next
  assume "NewLines runeWidth l w = Inr (r, l') \<and> w' \<noteq> w"
  then have a: "NewLines runeWidth l w = Inr (r, l')" and ne: "w' \<noteq> w"
    by simp_all
  from NewLines_result [OF a] ne
  show "NewLines runeWidth l' w' =
        (case wrap runeWidth l w' of
           Inl p \<Rightarrow> Inl p
         | Inr nls \<Rightarrow> Inr (nls, l\<lparr>width := w', newLines := nls\<rparr>))"
    by (auto simp add: NewLines_def split: sum.splits)
next
  assume "NewLines runeWidth l w = Inr (r, l') \<and> w' \<noteq> w \<and> w' \<noteq> 0"
  then have a: "NewLines runeWidth l w = Inr (r, l')" and ne: "w' \<noteq> w" "w' \<noteq> 0"
    by simp_all
  from NewLines_result [OF a] ne
  show "map_sum id fst (NewLines runeWidth l' w') =
        map_sum id fst (NewLines runeWidth (l\<lparr>width := 0, newLines := []\<rparr>) w')"
    by (auto simp add: NewLines_def split: sum.splits)
qed

lemma NewLines_line_hello:
  "NewLines width_one line_hello 9 = Inr ([6, 15], line_hello\<lparr>width := 9, newLines := [6, 15]\<rparr>)"
  "wrap width_one line_hello 5 = Inr [5, 11, 16]"
  "NewLines width_one (line_hello\<lparr>width := 0, newLines := []\<rparr>) 5 =
     Inr ([5, 11, 16], line_hello\<lparr>width := 5, newLines := [5, 11, 16]\<rparr>)"
  by code_simp+

theorem C8_NewLines_cache_witness:
  "NewLines width_one line_hello 9 =
     Inr ([6, 15], line_hello\<lparr>width := 9, newLines := [6, 15]\<rparr>) \<and>
   NewLines width_one (line_hello\<lparr>width := 9, newLines := [6, 15]\<rparr>) 9 =
     Inr ([6, 15], line_hello\<lparr>width := 9, newLines := [6, 15]\<rparr>) \<and>
   NewLines width_one (line_hello\<lparr>width := 9, newLines := [6, 15]\<rparr>) 5 =
     Inr ([5, 11, 16], line_hello\<lparr>width := 5, newLines := [5, 11, 16]\<rparr>) \<and>
   map_sum id fst (NewLines width_one (line_hello\<lparr>width := 9, newLines := [6, 15]\<rparr>) 5) =
     map_sum id fst (NewLines width_one (line_hello\<lparr>width := 0, newLines := []\<rparr>) 5)"
proof -
  note a = NewLines_line_hello(1)
  have ne: "(5 :: int) \<noteq> 9" "(5 :: int) \<noteq> 0"
    by simp_all
  note inst = C8_NewLines_cache [of width_one line_hello 9 "[6, 15]"
      "line_hello\<lparr>width := 9, newLines := [6, 15]\<rparr>" 5]
  from inst a have "NewLines width_one (line_hello\<lparr>width := 9, newLines := [6, 15]\<rparr>) 9 =
     Inr ([6, 15], line_hello\<lparr>width := 9, newLines := [6, 15]\<rparr>)"
    by blast
  moreover from inst a ne
  have "NewLines width_one (line_hello\<lparr>width := 9, newLines := [6, 15]\<rparr>) 5 =
        (case wrap width_one line_hello 5 of
           Inl p \<Rightarrow> Inl p
         | Inr nls \<Rightarrow> Inr (nls, line_hello\<lparr>width := 5, newLines := nls\<rparr>))"
    by blast
  then have "NewLines width_one (line_hello\<lparr>width := 9, newLines := [6, 15]\<rparr>) 5 =
     Inr ([5, 11, 16], line_hello\<lparr>width := 5, newLines := [5, 11, 16]\<rparr>)"
    by (simp add: NewLines_line_hello(2))
  moreover from inst a ne
  have "map_sum id fst (NewLines width_one (line_hello\<lparr>width := 9, newLines := [6, 15]\<rparr>) 5) =
     map_sum id fst (NewLines width_one (line_hello\<lparr>width := 0, newLines := []\<rparr>) 5)"
    by blast
  ultimately show ?thesis using a by blast
qed

section \<open>Properties of the merging of lines\<close>

lemma mergeLine_events:
  assumes "Data former = Some e1" and "Data addition = Some e2"
  shows "mergeLine toLower IRCString former addition =
           (case flow_loop toLower ([], Map.empty, []) (e1 @ e2) of
              Inl p \<Rightarrow> Inl p
            | Inr (store, flows, eventFlows) \<Rightarrow>
                Inr (former\<lparr>Body := StyledString_of
                               (render_loop IRCString store (zip (e1 @ e2) eventFlows) True
                                  new_builder),
                            Data := Some (e1 @ e2)\<rparr>))"
  using assms by (simp add: mergeLine_def Let_def split: sum.splits)

lemma flow_loop_join_part:
  "flow_loop toLower ([], Map.empty, []) [UserJoinEvent c1 U t1, UserPartEvent c2 U t2] =
     Inr ([\<lparr>hide = True, state = 1\<rparr>], Map.empty, [Some 0, None])"
  by (simp add: Let_def)

lemma flow_loop_part_join:
  "flow_loop toLower ([], Map.empty, []) [UserPartEvent c1 U t1, UserJoinEvent c2 U t2] =
     Inr ([\<lparr>hide = True, state = - 1\<rparr>], Map.empty, [Some 0, None])"
  by (simp add: Let_def)

lemma flow_loop_join_part_join:
  "flow_loop toLower ([], Map.empty, [])
     [UserJoinEvent c1 U t1, UserPartEvent c2 U t2, UserJoinEvent c3 U t3] =
     Inr ([\<lparr>hide = True, state = 1\<rparr>, \<lparr>hide = False, state = 1\<rparr>],
          [toLower U \<mapsto> 1], [Some 0, None, Some 1])"
  by (simp add: Let_def)

lemma flow_loop_nick_nick:
  "\<exists>flows. flow_loop toLower ([], Map.empty, [])
     [UserNickEvent A B t1, UserNickEvent B A t2] =
     Inr ([\<lparr>hide = False, state = 0\<rparr>], flows, [Some 0, Some 0])"
  by (simp add: Let_def)

lemma Body_formatEvent_join:
  "Body (formatEvent IRCString (UserJoinEvent c U t)) =
     \<lparr>string = CHR ''+'' # U, styles = [(0, Foreground ColorGreen), (1, Foreground ColorGray)]\<rparr>"
  by (simp add: Let_def event_line_def StyledString_of_def WriteString_def WriteByte_def
      SetStyle_def new_builder_def Len_def)

lemma string_Body_formatEvent_nick:
  "string (Body (formatEvent IRCString (UserNickEvent A B t))) = A @ arrow @ B"
  by (simp add: Let_def event_line_def StyledString_of_def WriteString_def AddStyle_def
      new_builder_def Len_def)

lemma string_WriteStyledString [simp]:
  "string (WriteStyledString sb s) = string sb @ string s"
  by (simp add: WriteStyledString_def)

lemma string_WriteString [simp]: "string (WriteString sb s) = string sb @ s"
  by (simp add: WriteString_def)

lemma mergeLine_join_part:
  assumes "Data former = Some e1" and "Data addition = Some e2"
    and "e1 @ e2 = [UserJoinEvent c1 U t1, UserPartEvent c2 U t2] \<or>
         e1 @ e2 = [UserPartEvent c1 U t1, UserJoinEvent c2 U t2]"
  shows "mergeLine toLower IRCString former addition =
           Inr (former\<lparr>Body := \<lparr>string = [], styles = []\<rparr>, Data := Some (e1 @ e2)\<rparr>)"
  using assms(3)
  by (auto simp add: mergeLine_events [OF assms(1,2)] flow_loop_join_part flow_loop_part_join
      StyledString_of_def new_builder_def)

lemma mergeLine_join_part_join:
  assumes "Data former = Some e1" and "Data addition = Some e2"
    and "e1 @ e2 = [UserJoinEvent c1 U t1, UserPartEvent c2 U t2, UserJoinEvent c3 U t3]"
  shows "mergeLine toLower IRCString former addition =
           Inr (former\<lparr>Body := Body (formatEvent IRCString (UserJoinEvent c3 U t3)),
                       Data := Some (e1 @ e2)\<rparr>)"
  by (simp add: mergeLine_events [OF assms(1,2)] assms(3) flow_loop_join_part_join
      StyledString_of_def new_builder_def Body_formatEvent_join WriteStyledString_def Len_def
      Let_def del: formatEvent.simps)

lemma mergeLine_nick_nick:
  assumes "Data former = Some e1" and "Data addition = Some e2"
    and "e1 @ e2 = [UserNickEvent A B t1, UserNickEvent B A t2]"
  shows "\<exists>l. mergeLine toLower IRCString former addition = Inr l \<and>
             string (Body l) = A @ arrow @ B @ ''  '' @ B @ arrow @ A \<and>
             Data l = Some (e1 @ e2)"
proof -
  from flow_loop_nick_nick [of toLower A B t1 t2] obtain flows
    where "flow_loop toLower ([], Map.empty, []) [UserNickEvent A B t1, UserNickEvent B A t2] =
      Inr ([\<lparr>hide = False, state = 0\<rparr>], flows, [Some 0, Some 0])"
    by blast
  then show ?thesis
    by (simp add: mergeLine_events [OF assms(1,2)] assms(3) StyledString_of_def
        string_Body_formatEvent_nick Let_def new_builder_def del: formatEvent.simps)
qed

text \<open>
  Claim C2, as stated, at a concrete input: the line of the nick change from \<open>alice\<close>
  to \<open>bob\<close>, into which the line of the nick change from \<open>bob\<close> to \<open>alice\<close> is
  merged.  The body of the merged line is not empty: it renders both nick changes.
\<close>

theorem C2_nick_round_trip_counterexample:
  "mergeLine ascii_lower IRCString_ex nick_ab nick_ba = Inr nick_merged \<and>
   string (Body nick_merged) = ''alice'' @ arrow @ ''bob  bob'' @ arrow @ ''alice'' \<and>
   string (Body nick_merged) \<noteq> []"
proof -
  have "mergeLine ascii_lower IRCString_ex nick_ab nick_ba = Inr nick_merged"
    by code_simp
  moreover have "string (Body nick_merged) = ''alice'' @ arrow @ ''bob  bob'' @ arrow @ ''alice''"
    by (simp add: nick_merged_def)
  ultimately show ?thesis by simp
qed

text \<open>
  Claim C2, amended.  Let the events of the former line and of the added line, taken
  together, be the list \<open>es\<close>.
  \<^item> When \<open>es\<close> is a join of \<open>U\<close> followed by a part of \<open>U\<close>, or a part of \<open>U\<close> followed
    by a join of \<open>U\<close>, the merged line has an empty body, and \<^verbatim>\<open>BufferList.mergeLine\<close>
    answers that the line is not to be kept.
  \<^item> When \<open>es\<close> is a nick change from \<open>A\<close> to \<open>B\<close> followed by a nick change from \<open>B\<close>
    to \<open>A\<close>, the body of the merged line renders both nick changes, two spaces between
    them: nick changes are never hidden by themselves.
  \<^item> When \<open>es\<close> is a join, a part and a join of \<open>U\<close>, the body of the merged line is
    the body of the line of the last join alone, \<open>+U\<close>.
\<close>

theorem C2_mergeLine_round_trips:
  assumes "Data former = Some e1" and "Data addition = Some e2"
  shows
  "(e1 @ e2 = [UserJoinEvent c1 U t1, UserPartEvent c2 U t2] \<or>
    e1 @ e2 = [UserPartEvent c1 U t1, UserJoinEvent c2 U t2] \<longrightarrow>
      mergeLine toLower IRCString former addition =
        Inr (former\<lparr>Body := \<lparr>string = [], styles = []\<rparr>, Data := Some (e1 @ e2)\<rparr>) \<and>
      (doMergeLine bs = mergeLine toLower IRCString \<longrightarrow>
         bs_mergeLine runeWidth bs former addition =
           Inr (False, former\<lparr>Body := \<lparr>string = [], styles = []\<rparr>,
                             Data := Some (e1 @ e2)\<rparr>))) \<and>
   (e1 @ e2 = [UserNickEvent A B t1, UserNickEvent B A t2] \<longrightarrow>
      (\<exists>l. mergeLine toLower IRCString former addition = Inr l \<and>
           string (Body l) = A @ arrow @ B @ ''  '' @ B @ arrow @ A \<and>
           Data l = Some (e1 @ e2))) \<and>
   (e1 @ e2 = [UserJoinEvent c1 U t1, UserPartEvent c2 U t2, UserJoinEvent c3 U t3] \<longrightarrow>
      mergeLine toLower IRCString former addition =
        Inr (former\<lparr>Body := Body (formatEvent IRCString (UserJoinEvent c3 U t3)),
                    Data := Some (e1 @ e2)\<rparr>) \<and>
      string (Body (formatEvent IRCString (UserJoinEvent c3 U t3))) = CHR ''+'' # U)"
proof (intro conjI impI)
  assume a: "e1 @ e2 = [UserJoinEvent c1 U t1, UserPartEvent c2 U t2] \<or>
             e1 @ e2 = [UserPartEvent c1 U t1, UserJoinEvent c2 U t2]"
  from mergeLine_join_part [OF assms a]
  show m: "mergeLine toLower IRCString former addition =
        Inr (former\<lparr>Body := \<lparr>string = [], styles = []\<rparr>, Data := Some (e1 @ e2)\<rparr>)" .
  assume "doMergeLine bs = mergeLine toLower IRCString"
  with m show "bs_mergeLine runeWidth bs former addition =
           Inr (False, former\<lparr>Body := \<lparr>string = [], styles = []\<rparr>,
                             Data := Some (e1 @ e2)\<rparr>)"
    by (simp add: bs_mergeLine_def)
next
  assume "e1 @ e2 = [UserNickEvent A B t1, UserNickEvent B A t2]"
  from mergeLine_nick_nick [OF assms this]
  show "\<exists>l. mergeLine toLower IRCString former addition = Inr l \<and>
           string (Body l) = A @ arrow @ B @ ''  '' @ B @ arrow @ A \<and>
           Data l = Some (e1 @ e2)" .
next
  assume "e1 @ e2 = [UserJoinEvent c1 U t1, UserPartEvent c2 U t2, UserJoinEvent c3 U t3]"
  from mergeLine_join_part_join [OF assms this]
  show "mergeLine toLower IRCString former addition =
        Inr (former\<lparr>Body := Body (formatEvent IRCString (UserJoinEvent c3 U t3)),
                    Data := Some (e1 @ e2)\<rparr>)" .
next
  show "string (Body (formatEvent IRCString (UserJoinEvent c3 U t3))) = CHR ''+'' # U"
    by (simp add: Body_formatEvent_join del: formatEvent.simps)
qed

lemma Data_examples:
  "Data join_bob = Some [UserJoinEvent ''#b'' ''bob'' 1]"
  "Data part_bob = Some [UserPartEvent ''#b'' ''bob'' 2]"
  "Data nick_ab = Some [UserNickEvent ''alice'' ''bob'' 1]"
  "Data nick_ba = Some [UserNickEvent ''bob'' ''alice'' 2]"
  by (simp_all add: join_bob_def part_bob_def nick_ab_def nick_ba_def event_line_def Let_def)

theorem C2_mergeLine_round_trips_witness:
  "mergeLine ascii_lower IRCString_ex join_bob part_bob =
     Inr (join_bob\<lparr>Body := \<lparr>string = [], styles = []\<rparr>,
                   Data := Some [UserJoinEvent ''#b'' ''bob'' 1, UserPartEvent ''#b'' ''bob'' 2]\<rparr>) \<and>
   bs_mergeLine width_one bs2 join_bob part_bob =
     Inr (False, join_bob\<lparr>Body := \<lparr>string = [], styles = []\<rparr>,
                   Data := Some [UserJoinEvent ''#b'' ''bob'' 1, UserPartEvent ''#b'' ''bob'' 2]\<rparr>) \<and>
   (\<exists>l. mergeLine ascii_lower IRCString_ex nick_ab nick_ba = Inr l \<and>
        string (Body l) = ''alice'' @ arrow @ ''bob'' @ ''  '' @ ''bob'' @ arrow @ ''alice'') \<and>
   (\<exists>l. mergeLine ascii_lower IRCString_ex
          (join_bob\<lparr>Data := Some [UserJoinEvent ''#b'' ''bob'' 1, UserPartEvent ''#b'' ''bob'' 2]\<rparr>)
          (join_bob\<lparr>Data := Some [UserJoinEvent ''#b'' ''bob'' 3]\<rparr>) = Inr l \<and>
        string (Body l) = ''+bob'')"
proof -
  have d: "doMergeLine bs2 = mergeLine ascii_lower IRCString_ex"
    by (simp add: doMergeLine_bs2 merge_ex_def)
  have e1: "[UserJoinEvent ''#b'' ''bob'' 1] @ [UserPartEvent ''#b'' ''bob'' 2] =
              [UserJoinEvent ''#b'' ''bob'' 1, UserPartEvent ''#b'' ''bob'' 2]"
    and e2: "[UserNickEvent ''alice'' ''bob'' 1] @ [UserNickEvent ''bob'' ''alice'' 2] =
              [UserNickEvent ''alice'' ''bob'' 1, UserNickEvent ''bob'' ''alice'' 2]"
    and e3: "[UserJoinEvent ''#b'' ''bob'' 1, UserPartEvent ''#b'' ''bob'' 2] @
              [UserJoinEvent ''#b'' ''bob'' 3] =
              [UserJoinEvent ''#b'' ''bob'' 1, UserPartEvent ''#b'' ''bob'' 2,
               UserJoinEvent ''#b'' ''bob'' 3]"
    by simp_all
  from C2_mergeLine_round_trips [OF Data_examples(1) Data_examples(2),
      where ?c1.0 = "''#b''" and U = "''bob''" and ?t1.0 = 1 and ?c2.0 = "''#b''" and ?t2.0 = 2
      and toLower = ascii_lower and IRCString = IRCString_ex and bs = bs2
      and runeWidth = width_one] e1 d
  have r1: "mergeLine ascii_lower IRCString_ex join_bob part_bob =
     Inr (join_bob\<lparr>Body := \<lparr>string = [], styles = []\<rparr>,
                   Data := Some [UserJoinEvent ''#b'' ''bob'' 1, UserPartEvent ''#b'' ''bob'' 2]\<rparr>)"
    and r2: "bs_mergeLine width_one bs2 join_bob part_bob =
     Inr (False, join_bob\<lparr>Body := \<lparr>string = [], styles = []\<rparr>,
                   Data := Some [UserJoinEvent ''#b'' ''bob'' 1, UserPartEvent ''#b'' ''bob'' 2]\<rparr>)"
    by simp_all
  from C2_mergeLine_round_trips [OF Data_examples(3) Data_examples(4),
      where A = "''alice''" and B = "''bob''" and ?t1.0 = 1 and ?t2.0 = 2
      and toLower = ascii_lower and IRCString = IRCString_ex] e2
  have r3: "\<exists>l. mergeLine ascii_lower IRCString_ex nick_ab nick_ba = Inr l \<and>
        string (Body l) = ''alice'' @ arrow @ ''bob'' @ ''  '' @ ''bob'' @ arrow @ ''alice''"
    by auto
  have d3: "Data (join_bob\<lparr>Data := Some [UserJoinEvent ''#b'' ''bob'' 1,
                                            UserPartEvent ''#b'' ''bob'' 2]\<rparr>) =
              Some [UserJoinEvent ''#b'' ''bob'' 1, UserPartEvent ''#b'' ''bob'' 2]"
    "Data (join_bob\<lparr>Data := Some [UserJoinEvent ''#b'' ''bob'' 3]\<rparr>) =
              Some [UserJoinEvent ''#b'' ''bob'' 3]"
    by simp_all
  from C2_mergeLine_round_trips [OF d3,
      where ?c1.0 = "''#b''" and U = "''bob''" and ?t1.0 = 1 and ?c2.0 = "''#b''" and ?t2.0 = 2
      and ?c3.0 = "''#b''" and ?t3.0 = 3
      and toLower = ascii_lower and IRCString = IRCString_ex] e3
  have r4: "\<exists>l. mergeLine ascii_lower IRCString_ex
          (join_bob\<lparr>Data := Some [UserJoinEvent ''#b'' ''bob'' 1, UserPartEvent ''#b'' ''bob'' 2]\<rparr>)
          (join_bob\<lparr>Data := Some [UserJoinEvent ''#b'' ''bob'' 3]\<rparr>) = Inr l \<and>
        string (Body l) = ''+bob''"
    by (simp del: formatEvent.simps)
  from r1 r2 r3 r4 show ?thesis by blast
qed

section \<open>Properties of the order of the buffers\<close>

lemma buf_less_imp_le: "buf_less toLower a b \<Longrightarrow> buf_le toLower a b"
  by (auto simp add: buf_less_def buf_le_def)

lemma buf_less_le_trans:
  "buf_less toLower a b \<Longrightarrow> buf_le toLower b c \<Longrightarrow> buf_less toLower a c"
  by (auto simp add: buf_less_def buf_le_def)

lemma not_buf_less: "\<not> buf_less toLower a b \<Longrightarrow> buf_le toLower b a"
  by (auto simp add: buf_less_def buf_le_def)

lemma buf_less_lit:
  "buf_less toLower a (buffer_lit nid nname ttl) \<longleftrightarrow>
     netName a < nname \<or> (netName a = nname \<and> toLower (title a) < toLower ttl)"
  "buf_less toLower (buffer_lit nid nname ttl) a \<longleftrightarrow>
     nname < netName a \<or> (nname = netName a \<and> toLower ttl < toLower (title a))"
  by (simp_all add: buf_less_def buffer_lit_def)

text \<open>
  The loop of \<^verbatim>\<open>Add\<close> with a network name: it skips the buffers that come before the
  new buffer and stops at the first buffer that does not.
\<close>

lemma add_loop_named:
  assumes "nname \<noteq> []"
  shows "add_loop toLower nid (toLower ttl) i nname xs =
           (i + length (takeWhile (\<lambda>a. buf_less toLower a (buffer_lit nid nname ttl)) xs),
            nname,
            (case dropWhile (\<lambda>a. buf_less toLower a (buffer_lit nid nname ttl)) xs of
               [] \<Rightarrow> True
             | d # ds \<Rightarrow> buf_less toLower (buffer_lit nid nname ttl) d))"
proof (induction xs arbitrary: i)
  case Nil
  then show ?case by simp
next
  case (Cons b xs)
  show ?case
  proof (cases "buf_less toLower b (buffer_lit nid nname ttl)")
    case True
    with assms Cons.IH [of "i + 1"] show ?thesis
      by (auto simp add: buf_less_lit Let_def)
  next
    case False
    with assms show ?thesis
      by (auto simp add: buf_less_lit Let_def)
  qed
qed

lemma buf_less_key:
  "buf_less toLower a b \<Longrightarrow>
     \<not> (netName a = netName b \<and> toLower (title a) = toLower (title b))"
  "buf_less toLower b a \<Longrightarrow>
     \<not> (netName a = netName b \<and> toLower (title a) = toLower (title b))"
  by (auto simp add: buf_less_def)

lemma not_buf_less_key:
  "\<not> buf_less toLower a b \<Longrightarrow> \<not> buf_less toLower b a \<Longrightarrow>
     netName a = netName b \<and> toLower (title a) = toLower (title b)"
  by (auto simp add: buf_less_def)

text \<open>
  The loop of \<^verbatim>\<open>Add\<close> without a network name: it skips the buffers up to the first
  buffer of the network that has a name, and goes on with this name.
\<close>

lemma add_loop_unnamed:
  "add_loop toLower nid lt i [] xs =
     (case dropWhile (\<lambda>a. \<not> (netID a = nid \<and> netName a \<noteq> [])) xs of
        [] \<Rightarrow> (i + length xs, [], True)
      | d # ds \<Rightarrow>
          add_loop toLower nid lt
            (i + length (takeWhile (\<lambda>a. \<not> (netID a = nid \<and> netName a \<noteq> [])) xs))
            (netName d) (d # ds))"
proof (induction xs arbitrary: i)
  case Nil
  then show ?case by simp
next
  case (Cons b xs)
  let ?Q = "\<lambda>a. \<not> (netID a = nid \<and> netName a \<noteq> [])"
  show ?case
  proof (cases "?Q b")
    case False
    then show ?thesis
      by (simp add: Let_def)
  next
    case True
    then have step: "add_loop toLower nid lt i [] (b # xs) = add_loop toLower nid lt (i + 1) [] xs"
      by (auto simp add: Let_def)
    from True
    have eq: "(case dropWhile ?Q (b # xs) of
              [] \<Rightarrow> (i + length (b # xs), [], True)
            | d # ds \<Rightarrow>
                add_loop toLower nid lt (i + length (takeWhile ?Q (b # xs)))
                  (netName d) (d # ds)) =
          (case dropWhile ?Q xs of
              [] \<Rightarrow> (i + 1 + length xs, [], True)
            | d # ds \<Rightarrow>
                add_loop toLower nid lt (i + 1 + length (takeWhile ?Q xs))
                  (netName d) (d # ds))"
      by (simp cong: list.case_cong del: add_loop.simps)
    show ?thesis
      unfolding step eq by (rule Cons.IH)
  qed
qed

text \<open>The network name that the loop of \<^verbatim>\<open>Add\<close> returns is \<open>new_netName\<close>.\<close>

lemma add_loop_named_name:
  "nname \<noteq> [] \<Longrightarrow> fst (snd (add_loop toLower nid lt i nname xs)) = nname"
proof (induction xs arbitrary: i)
  case Nil
  then show ?case by simp
next
  case (Cons b xs)
  from Cons.prems have e: "(if nname = [] \<and> netID b = nid then netName b else nname) = nname"
    by simp
  show ?case
    by (simp only: add_loop.simps Let_def e Cons.IH [OF Cons.prems] fst_conv snd_conv
        split: if_split) simp
qed

lemma add_loop_name:
  "fst (snd (add_loop toLower nid lt i nname xs)) = new_netName xs nid nname"
proof (cases "nname = []")
  case False
  then show ?thesis
    by (simp add: add_loop_named_name new_netName_def)
next
  case True
  let ?Q = "\<lambda>a. \<not> (netID a = nid \<and> netName a \<noteq> [])"
  show ?thesis
  proof (cases "dropWhile ?Q xs")
    case Nil
    have a: "add_loop toLower nid lt i [] xs = (i + length xs, [], True)"
      by (subst add_loop_unnamed) (simp only: Nil list.case)
    have f: "find (\<lambda>b. netID b = nid \<and> netName b \<noteq> []) xs = None"
      by (simp only: find_dropWhile comp_def Nil list.case)
    show ?thesis
      unfolding True a new_netName_def f by simp
  next
    case (Cons d ds)
    then have "netName d \<noteq> []"
      by (simp add: dropWhile_eq_Cons_conv)
    note nm = add_loop_named_name [OF this]
    have a: "add_loop toLower nid lt i [] xs =
            add_loop toLower nid lt (i + length (takeWhile ?Q xs)) (netName d) (d # ds)"
      by (subst add_loop_unnamed) (simp only: Cons list.case)
    have f: "find (\<lambda>b. netID b = nid \<and> netName b \<noteq> []) xs = Some d"
      by (simp only: find_dropWhile comp_def Cons list.case)
    show ?thesis
      unfolding True a new_netName_def f nm by simp
  qed
qed

lemma buf_le_trans:
  "buf_le toLower a b \<Longrightarrow> buf_le toLower b c \<Longrightarrow> buf_le toLower a c"
  by (auto simp add: buf_le_def)

lemma sorted_dropWhile_ge:
  assumes "sorted_wrt (buf_le toLower) xs"
  shows "\<forall>z \<in> set (dropWhile (\<lambda>a. buf_less toLower a nb) xs). buf_le toLower nb z"
  using assms
proof (induction xs)
  case Nil
  then show ?case by simp
next
  case (Cons b xs)
  show ?case
  proof (cases "buf_less toLower b nb")
    case True
    with Cons show ?thesis by simp
  next
    case False
    then have "buf_le toLower nb b" by (rule not_buf_less)
    moreover from this Cons.prems have "\<forall>z \<in> set xs. buf_le toLower nb z"
      by (auto intro: buf_le_trans)
    ultimately show ?thesis using False by simp
  qed
qed

text \<open>
  Where the loop of \<^verbatim>\<open>Add\<close> stops on a sorted list: \<open>N\<close> is the network name that the
  new buffer gets.
\<close>

lemma add_loop_position:
  assumes srt: "sorted_wrt (buf_le toLower) xs"
    and ok: "add_ok xs nid nname"
    and N: "N = new_netName xs nid nname"
  shows "N \<noteq> [] \<and>
         add_loop toLower nid (toLower ttl) 0 nname xs =
           (length (takeWhile (\<lambda>a. buf_less toLower a (buffer_lit nid N ttl)) xs), N,
            (case dropWhile (\<lambda>a. buf_less toLower a (buffer_lit nid N ttl)) xs of
               [] \<Rightarrow> True
             | d # ds \<Rightarrow> buf_less toLower (buffer_lit nid N ttl) d))"
proof (cases "nname = []")
  case False
  then have Nn: "N = nname"
    by (simp add: N new_netName_def)
  show ?thesis
    unfolding Nn using False add_loop_named [OF False, of toLower nid ttl 0 xs] by simp
next
  case True
  let ?Q = "\<lambda>a. \<not> (netID a = nid \<and> netName a \<noteq> [])"
  from True ok obtain d
    where f: "find (\<lambda>b. netID b = nid \<and> netName b \<noteq> []) xs = Some d"
      and own: "\<forall>b \<in> set xs. netName b = netName d \<longrightarrow> netID b = nid"
    by (auto simp add: add_ok_def list_all_iff split: option.splits)
  from f obtain ds where dw: "dropWhile ?Q xs = d # ds"
    by (auto simp add: find_dropWhile comp_def split: list.splits)
  then have xs: "xs = takeWhile ?Q xs @ d # ds" and d: "netID d = nid" "netName d \<noteq> []"
    by (simp_all add: dropWhile_eq_Cons_conv)
  define tw where "tw = takeWhile ?Q xs"
  from xs have xs': "xs = tw @ d # ds"
    by (simp add: tw_def)
  from True f have Nd: "N = netName d"
    by (simp add: N new_netName_def)
  let ?P = "\<lambda>a. buf_less toLower a (buffer_lit nid N ttl)"
  from d Nd have Nne: "N \<noteq> []"
    by simp
  have before: "\<forall>a \<in> set tw. ?P a"
  proof
    fix a
    assume a: "a \<in> set tw"
    then have "?Q a"
      unfolding tw_def by (rule set_takeWhileD [THEN conjunct2])
    moreover from a xs' have ain: "a \<in> set xs"
      by simp
    ultimately have "netName a \<noteq> N"
      using own Nd Nne by auto
    moreover from srt xs' a have "buf_le toLower a d"
      by (simp add: sorted_wrt_append)
    ultimately show "?P a"
      by (auto simp add: buf_less_lit buf_le_def Nd)
  qed
  have t: "takeWhile ?P xs = tw @ takeWhile ?P (d # ds)"
    using before by (subst xs') (simp only: takeWhile_append2)
  have dr: "dropWhile ?P xs = dropWhile ?P (d # ds)"
    using before by (subst xs') (simp only: dropWhile_append2)
  from add_loop_unnamed [of toLower nid "toLower ttl" 0 xs] dw
  have "add_loop toLower nid (toLower ttl) 0 [] xs =
          add_loop toLower nid (toLower ttl) (length tw) N (d # ds)"
    by (simp add: tw_def Nd del: add_loop.simps)
  also from add_loop_named [OF Nne, of toLower nid ttl "length tw" "d # ds"]
  have "\<dots> = (length (takeWhile ?P xs), N,
              (case dropWhile ?P xs of [] \<Rightarrow> True
               | d # ds \<Rightarrow> buf_less toLower (buffer_lit nid N ttl) d))"
    by (simp only: t dr length_append)
  finally show ?thesis
    using True Nne by blast
qed

text \<open>
  \<^verbatim>\<open>Add\<close> on a sorted list of buffers: whether it adds, where, and what the list is
  afterwards.
\<close>

lemma Add_sorted:
  assumes srt: "sorted_wrt (buf_le toLower) (list bs)"
    and ok: "add_ok (list bs) nid nname"
    and res: "Add toLower bs nid nname ttl = ((i, added), bs')"
    and N: "N = new_netName (list bs) nid nname"
    and nb: "nb = buffer_lit nid N ttl"
  shows "sorted_wrt (buf_le toLower) (list bs') \<and> 0 \<le> i \<and>
         (added \<longleftrightarrow>
            \<not> (\<exists>a \<in> set (list bs). netName a = N \<and> toLower (title a) = toLower ttl)) \<and>
         (\<not> added \<longrightarrow>
            bs' = bs \<and> nat i < length (list bs) \<and> netName (list bs ! nat i) = N \<and>
            toLower (title (list bs ! nat i)) = toLower ttl) \<and>
         (added \<longrightarrow>
            nat i \<le> length (list bs) \<and>
            list bs' = take (nat i) (list bs) @ [nb] @ drop (nat i) (list bs) \<and>
            (\<forall>a \<in> set (take (nat i) (list bs)). buf_less toLower a nb) \<and>
            (\<forall>a \<in> set (drop (nat i) (list bs)). buf_less toLower nb a))"
proof -
  from add_loop_position [OF srt ok N, of ttl]
  have loop: "add_loop toLower nid (toLower ttl) 0 nname (list bs) =
             (length (takeWhile (\<lambda>a. buf_less toLower a (buffer_lit nid N ttl)) (list bs)), N,
              (case dropWhile (\<lambda>a. buf_less toLower a (buffer_lit nid N ttl)) (list bs) of
                 [] \<Rightarrow> True
               | d # ds \<Rightarrow> buf_less toLower (buffer_lit nid N ttl) d))"
    by blast
  define tw where "tw = takeWhile (\<lambda>a. buf_less toLower a nb) (list bs)"
  define dw where "dw = dropWhile (\<lambda>a. buf_less toLower a nb) (list bs)"
  have split: "list bs = tw @ dw"
    by (simp add: tw_def dw_def)
  have tk: "take (length tw) (list bs) = tw" "drop (length tw) (list bs) = dw"
    by (simp_all add: split)
  have nbf: "netID nb = nid" "title nb = ttl" "netName nb = N"
    by (simp_all add: nb buffer_lit_def)
  define flag where "flag = (case dw of [] \<Rightarrow> True | d # ds \<Rightarrow> buf_less toLower nb d)"
  from loop have loop': "add_loop toLower nid (toLower ttl) 0 nname (list bs) =
      (length tw, N, flag)"
    unfolding flag_def dw_def tw_def nb .
  have A: "Add toLower bs nid nname ttl =
      (if \<not> flag then ((int (length tw), False), bs)
       else ((int (length tw), True),
             (if int (length tw) \<le> current bs \<and> current bs < int (length (list bs))
              then bs\<lparr>current := current bs + 1\<rparr> else bs)\<lparr>list := tw @ [nb] @ dw\<rparr>))"
    by (simp add: Add_def loop' Let_def tk nb)
  from res A have i: "i = int (length tw)" and added: "added = flag"
    by (auto split: if_splits)
  have lt: "\<forall>a \<in> set tw. buf_less toLower a nb"
    unfolding tw_def by (auto dest: set_takeWhileD)
  from sorted_dropWhile_ge [OF srt, of nb] have ge: "\<forall>z \<in> set dw. buf_le toLower nb z"
    by (simp add: dw_def)
  have key: "\<And>a. (netName a = N \<and> toLower (title a) = toLower ttl) =
               (netName a = netName nb \<and> toLower (title a) = toLower (title nb))"
    by (simp add: nbf)
  show ?thesis
  proof (cases flag)
    case False
    with res A have same: "bs' = bs"
      by simp
    from False obtain d ds where dw: "dw = d # ds" and nd: "\<not> buf_less toLower nb d"
      by (auto simp add: flag_def split: list.splits)
    from dw have "\<not> buf_less toLower d nb"
      unfolding dw_def by (simp add: dropWhile_eq_Cons_conv)
    from not_buf_less_key [OF this nd]
    have kd: "netName d = N \<and> toLower (title d) = toLower ttl"
      by (simp add: nbf)
    from split dw have at_i: "list bs ! length tw = d" and len: "length tw < length (list bs)"
      by (simp_all add: nth_append)
    from split dw have "d \<in> set (list bs)"
      by simp
    with kd have "\<exists>a \<in> set (list bs). netName a = N \<and> toLower (title a) = toLower ttl"
      by blast
    with False same srt i added at_i len kd show ?thesis
      by simp
  next
    case True
    with res A have l: "list bs' = tw @ [nb] @ dw"
      by auto
    have gt: "\<forall>z \<in> set dw. buf_less toLower nb z"
    proof (cases dw)
      case Nil
      then show ?thesis by simp
    next
      case (Cons d ds)
      with True have d: "buf_less toLower nb d" by (simp add: flag_def)
      from srt split Cons have "\<forall>z \<in> set ds. buf_le toLower d z"
        by (simp add: sorted_wrt_append)
      with d Cons show ?thesis
        by (auto intro: buf_less_le_trans)
    qed
    from srt split have s: "sorted_wrt (buf_le toLower) tw" "sorted_wrt (buf_le toLower) dw"
      "\<forall>a \<in> set tw. \<forall>z \<in> set dw. buf_le toLower a z"
      by (simp_all add: sorted_wrt_append)
    from s lt ge have srt': "sorted_wrt (buf_le toLower) (tw @ [nb] @ dw)"
      by (auto simp add: sorted_wrt_append intro: buf_less_imp_le)
    have absent: "\<not> (\<exists>a \<in> set (list bs). netName a = N \<and> toLower (title a) = toLower ttl)"
    proof
      assume "\<exists>a \<in> set (list bs). netName a = N \<and> toLower (title a) = toLower ttl"
      then obtain a where a: "a \<in> set tw \<or> a \<in> set dw"
        and ka: "netName a = netName nb \<and> toLower (title a) = toLower (title nb)"
        using split key by auto
      from a lt gt have "buf_less toLower a nb \<or> buf_less toLower nb a"
        by blast
      with ka buf_less_key [of toLower a nb] buf_less_key [of toLower nb a] show False
        by auto
    qed
    have len: "length tw \<le> length (list bs)"
      by (simp add: split)
    from True srt' absent l i added tk lt gt len show ?thesis
      by simp
  qed
qed

lemma Remove_sorted:
  assumes srt: "sorted_wrt (buf_le toLower) (list bs)"
  shows "sorted_wrt (buf_le toLower) (list (snd (Remove toLower bs nid ttl)))"
proof -
  have srt_cut: "\<And>k. sorted_wrt (buf_le toLower) (take k (list bs) @ drop (k + 1) (list bs))"
  proof -
    fix k
    from srt have a: "sorted_wrt (buf_le toLower) (take k (list bs))"
      by (rule sorted_wrt_take)
    from srt have b: "sorted_wrt (buf_le toLower) (drop (k + 1) (list bs))"
      by (rule sorted_wrt_drop)
    from srt have "sorted_wrt (buf_le toLower) (take k (list bs) @ drop k (list bs))"
      by simp
    from this [unfolded sorted_wrt_append]
    have c: "\<forall>a \<in> set (take k (list bs)). \<forall>z \<in> set (drop k (list bs)). buf_le toLower a z"
      by blast
    have d: "set (drop (k + 1) (list bs)) \<subseteq> set (drop k (list bs))"
      by (rule set_drop_subset_set_drop) simp
    from a b c d show "sorted_wrt (buf_le toLower) (take k (list bs) @ drop (k + 1) (list bs))"
      unfolding sorted_wrt_append by blast
  qed
  then show ?thesis
    using srt by (auto simp add: Remove_def Let_def split: prod.splits)
qed

lemma reachable_sorted:
  assumes "reachable toLower bs"
  shows "sorted_wrt (buf_le toLower) (list bs)"
  using assms
proof (induction rule: reachable.induct)
  case (new cs merge_line)
  show ?case
    by (simp add: NewBufferList_def)
next
  case (add bs nid nname ttl)
  obtain i added bs' where r: "Add toLower bs nid nname ttl = ((i, added), bs')"
    by (metis prod.exhaust)
  from Add_sorted [OF add.IH add.hyps(2) r refl refl] show ?case
    by (simp add: r)
next
  case (remove bs nid ttl)
  then show ?case by (simp add: Remove_sorted)
qed

text \<open>
  An \<^verbatim>\<open>Add\<close> without a network name for a network that has no buffer puts the new
  buffer, with an empty network name, at the end of the list.
\<close>

lemma Add_unnamed_unknown_network:
  "map (\<lambda>b. (netID b, netName b, title b))
     (list (snd (Add ascii_lower bs2 ''other'' [] ''#c''))) =
     [(''net'', ''net'', ''#a''), (''net'', ''net'', ''#b''), (''other'', [], ''#c'')]"
  by code_simp

text \<open>
  Claim C7, as stated, at a concrete input: after \<^verbatim>\<open>Add("n1", "a", "")\<close> and
  \<^verbatim>\<open>Add("n2", "B", "")\<close> on a new buffer list, the buffer of the network named \<open>B\<close>
  stands before the buffer of the network named \<open>a\<close>: the list is not sorted by the
  case-folded network names.
\<close>

theorem C7_Add_case_counterexample:
  "map netName (list bs_aB) = [''B'', ''a''] \<and>
   \<not> sorted_wrt (spec_le ascii_lower) (list bs_aB)"
  by code_simp

text \<open>
  Claim C7, amended.  Take any sequence of \<^verbatim>\<open>Add\<close> and \<^verbatim>\<open>Remove\<close> operations on a new
  buffer list in which every \<^verbatim>\<open>Add\<close> passes a network name that is not empty, or passes
  an empty one for a network that has a named buffer in the list, the name of the first
  such buffer being carried by no buffer of another network.  Afterwards the list is
  sorted by network name in ascending order, the names compared as they are (byte by
  byte, as Go compares strings), then by title in ascending order, the titles compared
  after case folding.

  On every list that is sorted in this order, however it was built, such an \<^verbatim>\<open>Add\<close>
  leaves a sorted list.  Let \<open>N\<close> be the network name of the new buffer: the name passed
  or, when that is empty, the name looked up.  The \<^verbatim>\<open>Add\<close> answers that it has not added
  exactly when the list has a buffer with the network name \<open>N\<close> and, up to case, the
  title; then it changes nothing and returns the index of such a buffer.  Otherwise it
  inserts the buffer with the network, the name \<open>N\<close> and the title at the index that it
  returns, after the buffers that come before it in this order and before the buffers
  that come after it, and changes nothing else in the list.
\<close>

theorem C7_list_sorted:
  "(reachable toLower bs \<longrightarrow> sorted_wrt (buf_le toLower) (list bs)) \<and>
   (sorted_wrt (buf_le toLower) (list bs) \<and> add_ok (list bs) nid nname \<and>
    Add toLower bs nid nname ttl = ((i, added), bs') \<longrightarrow>
      sorted_wrt (buf_le toLower) (list bs') \<and> 0 \<le> i \<and>
      (added \<longleftrightarrow>
         \<not> (\<exists>a \<in> set (list bs). netName a = new_netName (list bs) nid nname \<and>
                toLower (title a) = toLower ttl)) \<and>
      (\<not> added \<longrightarrow>
         bs' = bs \<and> nat i < length (list bs) \<and>
         netName (list bs ! nat i) = new_netName (list bs) nid nname \<and>
         toLower (title (list bs ! nat i)) = toLower ttl) \<and>
      (added \<longrightarrow>
         nat i \<le> length (list bs) \<and>
         list bs' = take (nat i) (list bs) @
                      [buffer_lit nid (new_netName (list bs) nid nname) ttl] @
                      drop (nat i) (list bs) \<and>
         (\<forall>a \<in> set (take (nat i) (list bs)).
            buf_less toLower a (buffer_lit nid (new_netName (list bs) nid nname) ttl)) \<and>
         (\<forall>a \<in> set (drop (nat i) (list bs)).
            buf_less toLower (buffer_lit nid (new_netName (list bs) nid nname) ttl) a)))"
proof (rule conjI)
  show "reachable toLower bs \<longrightarrow> sorted_wrt (buf_le toLower) (list bs)"
    using reachable_sorted [of toLower bs] by blast
next
  show "sorted_wrt (buf_le toLower) (list bs) \<and> add_ok (list bs) nid nname \<and>
    Add toLower bs nid nname ttl = ((i, added), bs') \<longrightarrow>
      sorted_wrt (buf_le toLower) (list bs') \<and> 0 \<le> i \<and>
      (added \<longleftrightarrow>
         \<not> (\<exists>a \<in> set (list bs). netName a = new_netName (list bs) nid nname \<and>
                toLower (title a) = toLower ttl)) \<and>
      (\<not> added \<longrightarrow>
         bs' = bs \<and> nat i < length (list bs) \<and>
         netName (list bs ! nat i) = new_netName (list bs) nid nname \<and>
         toLower (title (list bs ! nat i)) = toLower ttl) \<and>
      (added \<longrightarrow>
         nat i \<le> length (list bs) \<and>
         list bs' = take (nat i) (list bs) @
                      [buffer_lit nid (new_netName (list bs) nid nname) ttl] @
                      drop (nat i) (list bs) \<and>
         (\<forall>a \<in> set (take (nat i) (list bs)).
            buf_less toLower a (buffer_lit nid (new_netName (list bs) nid nname) ttl)) \<and>
         (\<forall>a \<in> set (drop (nat i) (list bs)).
            buf_less toLower (buffer_lit nid (new_netName (list bs) nid nname) ttl) a))"
  proof
    assume a: "sorted_wrt (buf_le toLower) (list bs) \<and> add_ok (list bs) nid nname \<and>
    Add toLower bs nid nname ttl = ((i, added), bs')"
    then have srt: "sorted_wrt (buf_le toLower) (list bs)" and ok: "add_ok (list bs) nid nname"
      and res: "Add toLower bs nid nname ttl = ((i, added), bs')"
      by simp_all
    from Add_sorted [OF srt ok res refl refl]
    show "sorted_wrt (buf_le toLower) (list bs') \<and> 0 \<le> i \<and>
      (added \<longleftrightarrow>
         \<not> (\<exists>a \<in> set (list bs). netName a = new_netName (list bs) nid nname \<and>
                toLower (title a) = toLower ttl)) \<and>
      (\<not> added \<longrightarrow>
         bs' = bs \<and> nat i < length (list bs) \<and>
         netName (list bs ! nat i) = new_netName (list bs) nid nname \<and>
         toLower (title (list bs ! nat i)) = toLower ttl) \<and>
      (added \<longrightarrow>
         nat i \<le> length (list bs) \<and>
         list bs' = take (nat i) (list bs) @
                      [buffer_lit nid (new_netName (list bs) nid nname) ttl] @
                      drop (nat i) (list bs) \<and>
         (\<forall>a \<in> set (take (nat i) (list bs)).
            buf_less toLower a (buffer_lit nid (new_netName (list bs) nid nname) ttl)) \<and>
         (\<forall>a \<in> set (drop (nat i) (list bs)).
            buf_less toLower (buffer_lit nid (new_netName (list bs) nid nname) ttl) a))" .
  qed
qed

lemma reachable_bs2: "reachable ascii_lower bs2"
proof -
  have "reachable ascii_lower bs0"
    unfolding bs0_def by (rule reachable.new)
  moreover have "add_ok (list bs0) ''net'' ''net''"
    by (simp add: add_ok_def)
  ultimately have "reachable ascii_lower bs1"
    unfolding bs1_def by (rule reachable.add)
  moreover have "add_ok (list bs1) ''net'' ''net''"
    by (simp add: add_ok_def)
  ultimately show ?thesis
    unfolding bs2_def by (rule reachable.add)
qed

lemma add_loop_bs2:
  "add_loop ascii_lower ''net'' (ascii_lower ''#aa'') 0 [] (list bs2) = (1, ''net'', True)"
  "add_loop ascii_lower ''net'' (ascii_lower ''#A'') 0 [] (list bs2) = (0, ''net'', False)"
  by code_simp+

theorem C7_list_sorted_witness:
  "reachable ascii_lower bs2 \<and> sorted_wrt (buf_le ascii_lower) (list bs2) \<and>
   add_ok (list bs2) ''net'' [] \<and> new_netName (list bs2) ''net'' [] = ''net'' \<and>
   Add ascii_lower bs2 ''net'' [] ''#aa'' =
     ((1, True), bs2\<lparr>list := [buffer_lit ''net'' ''net'' ''#a'', buffer_lit ''net'' ''net'' ''#aa'',
                              buffer_lit ''net'' ''net'' ''#b'']\<rparr>) \<and>
   sorted_wrt (buf_le ascii_lower)
     [buffer_lit ''net'' ''net'' ''#a'', buffer_lit ''net'' ''net'' ''#aa'',
      buffer_lit ''net'' ''net'' ''#b''] \<and>
   Add ascii_lower bs2 ''net'' [] ''#A'' = ((0, False), bs2) \<and>
   netName (list bs2 ! 0) = ''net'' \<and>
   ascii_lower (title (list bs2 ! 0)) = ascii_lower ''#A''"
proof -
  note r = reachable_bs2
  have ok: "add_ok (list bs2) ''net'' []"
    by code_simp
  have nn: "new_netName (list bs2) ''net'' [] = ''net''"
    by code_simp
  have res: "Add ascii_lower bs2 ''net'' [] ''#aa'' =
     ((1, True), bs2\<lparr>list := [buffer_lit ''net'' ''net'' ''#a'', buffer_lit ''net'' ''net'' ''#aa'',
                              buffer_lit ''net'' ''net'' ''#b'']\<rparr>)"
    unfolding Add_def add_loop_bs2 by (simp add: bs2_fields Let_def)
  have res2: "Add ascii_lower bs2 ''net'' [] ''#A'' = ((0, False), bs2)"
    unfolding Add_def add_loop_bs2 by simp
  note inst = C7_list_sorted [of ascii_lower bs2 "''net''" "[]" "''#aa''" 1 True
      "bs2\<lparr>list := [buffer_lit ''net'' ''net'' ''#a'', buffer_lit ''net'' ''net'' ''#aa'',
                     buffer_lit ''net'' ''net'' ''#b'']\<rparr>"]
  from inst [THEN conjunct1, THEN mp, OF r]
  have s1: "sorted_wrt (buf_le ascii_lower) (list bs2)" .
  from inst [THEN conjunct2, THEN mp, OF conjI [OF s1 conjI [OF ok res]], THEN conjunct1]
  have s2: "sorted_wrt (buf_le ascii_lower)
     [buffer_lit ''net'' ''net'' ''#a'', buffer_lit ''net'' ''net'' ''#aa'',
      buffer_lit ''net'' ''net'' ''#b'']"
    by simp
  note inst2 = C7_list_sorted [of ascii_lower bs2 "''net''" "[]" "''#A''" 0 False bs2,
      THEN conjunct2, THEN mp, OF conjI [OF s1 conjI [OF ok res2]]]
  from inst2 [THEN conjunct2, THEN conjunct2, THEN conjunct2, THEN conjunct1]
  have s3: "netName (list bs2 ! 0) = ''net''"
    "ascii_lower (title (list bs2 ! 0)) = ascii_lower ''#A''"
    by (simp_all add: nn)
  show ?thesis
    by (intro conjI) (fact r s1 ok nn res s2 res2 s3)+
qed

end
